theory Spec2Isabelle
  imports Main
begin

section \<open>Outcomes of the C++ code\<close>

text \<open>
  The Nachos file system is C++ that mutates objects in place, asserts and indexes
  arrays without checks.  Every operation is modelled as a function from the state it
  reads to the state it leaves; an operation that does not return normally yields a
  \<open>fault\<close>:
  \<^item> \<open>AssertFail\<close>: an \<^verbatim>\<open>ASSERT\<close> whose condition is false (Nachos prints and aborts);
  \<^item> \<open>OutOfBounds\<close>: an array is indexed outside its declared bounds;
  \<^item> \<open>NullDeref\<close>: a NULL pointer is dereferenced;
  \<^item> \<open>Uninitialised\<close>: a value is used that was never written (or a function falls off
    its end without \<^verbatim>\<open>return\<close>);
  \<^item> \<open>BufferOverflow\<close>: a string is copied into a character buffer that is too small;
  \<^item> \<open>BadSector\<close>: a sector is read as a record of a kind it does not hold;
  \<^item> \<open>OutOfFuel\<close>: the recursion bound of \<open>Destroy\<close> is exhausted.
\<close>

datatype fault =
  AssertFail | OutOfBounds | NullDeref | Uninitialised | BufferOverflow | BadSector | OutOfFuel

section \<open>Build-time constants\<close>

text \<open>
  The headers that define the constants (\<^verbatim>\<open>filehdr.h\<close>, \<^verbatim>\<open>filesys.h\<close>, \<^verbatim>\<open>directory.h\<close>,
  \<^verbatim>\<open>disk.h\<close>) are not part of the sources, so the constants are parameters of the model.
\<close>

record config =
  SectorSize :: nat
  NumDirect :: nat
  NumIndirect :: nat
  NumMaxSect :: nat
  NumSectors :: nat
  NumDirEntries :: nat
  FreeMapFileSize :: int
  DirectoryFileSize :: int
  FileNameMaxLen :: nat
  MAX_PATH_LEN :: nat

definition FreeMapSector :: int where
  "FreeMapSector = 0"

definition DirectorySector :: int where
  "DirectorySector = 1"

text \<open>
  \<open>NumSlots\<close> is the length of the \<^verbatim>\<open>dataSectors\<close> array: the direct pointers followed by
  the pointers to the indirect headers.
\<close>

definition NumSlots :: "config \<Rightarrow> nat" where
  "NumSlots cfg = NumDirect cfg + NumIndirect cfg"

text \<open>
  The constants a build can have: positive sizes, and an indirect header (which reuses the
  \<^verbatim>\<open>dataSectors\<close> array) that has room for \<open>NumMaxSect\<close> pointers.
\<close>

definition wf_config :: "config \<Rightarrow> bool" where
  "wf_config cfg \<longleftrightarrow>
     0 < SectorSize cfg \<and> 0 < NumDirect cfg \<and> 0 < NumMaxSect cfg \<and>
     NumMaxSect cfg \<le> NumSlots cfg"

text \<open>
  Modelled from the spec: \<^verbatim>\<open>divRoundUp\<close> (\<^verbatim>\<open>utility.h\<close>) is not part of the sources; the
  spec gives \<open>num_sectors = ceil(num_bytes / SECTOR_SIZE)\<close>.
\<close>

definition divRoundUp :: "int \<Rightarrow> int \<Rightarrow> int" where
  "divRoundUp n s = - ((- n) div s)"

text \<open>C's integer division truncates towards zero.\<close>

definition c_div :: "int \<Rightarrow> int \<Rightarrow> int" where
  "c_div a b = sgn a * sgn b * (\<bar>a\<bar> div \<bar>b\<bar>)"

definition c_mod :: "int \<Rightarrow> int \<Rightarrow> int" where
  "c_mod a b = a - b * c_div a b"

section \<open>The free-space map\<close>

text \<open>
  Modelled from the spec: \<^verbatim>\<open>Bitmap\<close> and \<^verbatim>\<open>PersistentBitmap\<close> (\<^verbatim>\<open>bitmap.cc\<close>,
  \<^verbatim>\<open>pbitmap.cc\<close>) are not part of the sources.  The spec (4.1) gives: a bit vector with one
  bit per sector, \<open>num_clear\<close> the count of free bits, \<open>find_and_set\<close> returning the lowest
  clear index and setting it, or -1, \<open>mark\<close>/\<open>clear\<close>/\<open>test\<close> on one bit.  The spec is silent
  on an index outside the map; it is modelled as a failed check.
\<close>

type_synonym Bitmap = "bool list"

definition Bitmap_new :: "nat \<Rightarrow> Bitmap" where
  "Bitmap_new n = replicate n False"

definition NumClear :: "Bitmap \<Rightarrow> nat" where
  "NumClear bm = length (filter Not bm)"

fun find_clear :: "Bitmap \<Rightarrow> nat option" where
  "find_clear [] = None"
| "find_clear (b # bs) =
     (if b then (case find_clear bs of None \<Rightarrow> None | Some i \<Rightarrow> Some (Suc i)) else Some 0)"

definition FindAndSet :: "Bitmap \<Rightarrow> int \<times> Bitmap" where
  "FindAndSet bm = (case find_clear bm of None \<Rightarrow> (-1, bm) | Some i \<Rightarrow> (int i, bm[i := True]))"

definition valid_bit :: "Bitmap \<Rightarrow> int \<Rightarrow> bool" where
  "valid_bit bm w \<longleftrightarrow> 0 \<le> w \<and> nat w < length bm"

definition Test :: "Bitmap \<Rightarrow> int \<Rightarrow> fault + bool" where
  "Test bm w = (if valid_bit bm w then Inr (bm ! nat w) else Inl AssertFail)"

definition Mark :: "Bitmap \<Rightarrow> int \<Rightarrow> fault + Bitmap" where
  "Mark bm w = (if valid_bit bm w then Inr (bm[nat w := True]) else Inl AssertFail)"

definition Clear :: "Bitmap \<Rightarrow> int \<Rightarrow> fault + Bitmap" where
  "Clear bm w = (if valid_bit bm w then Inr (bm[nat w := False]) else Inl AssertFail)"

text \<open>The set of sectors whose bit is set.\<close>

definition marked :: "Bitmap \<Rightarrow> int set" where
  "marked bm = {int i |i. i < length bm \<and> bm ! i}"

section \<open>File headers\<close>

text \<open>
  \<open>hdr_image\<close> is the part of a \<^verbatim>\<open>FileHeader\<close> object that \<^verbatim>\<open>WriteSector\<close> and
  \<^verbatim>\<open>ReadSector\<close> transfer (spec, 6: \<open>num_bytes\<close>, \<open>num_sectors\<close> and the \<open>data_sectors\<close>
  array fill the sector).  \<open>FileHeader\<close> adds the in-core \<^verbatim>\<open>indirectTable\<close>: one pointer per
  indirect slot, NULL (\<open>None\<close>) or an indirect header.  An indirect header is a
  \<^verbatim>\<open>FileHeader\<close> object too, but its own \<^verbatim>\<open>indirectTable\<close> is never assigned
  (\<^verbatim>\<open>AllocateIndirect\<close>, \<^verbatim>\<open>FetchFromIndirect\<close> and \<^verbatim>\<open>WriteBackIndirect\<close> touch the sector part
  only), so it is modelled by its sector part.
\<close>

record hdr_image =
  numBytes :: int
  numSectors :: int
  dataSectors :: "int list"

record FileHeader = hdr_image +
  indirectTable :: "hdr_image option list"

definition image_of :: "FileHeader \<Rightarrow> hdr_image" where
  "image_of h = \<lparr>numBytes = numBytes h, numSectors = numSectors h, dataSectors = dataSectors h\<rparr>"

text \<open>The constructor \<^verbatim>\<open>FileHeader::FileHeader\<close>.\<close>

definition hdr_image_new :: "config \<Rightarrow> hdr_image" where
  "hdr_image_new cfg =
     \<lparr>numBytes = -1, numSectors = -1, dataSectors = replicate (NumSlots cfg) (-1)\<rparr>"

definition FileHeader_new :: "config \<Rightarrow> FileHeader" where
  "FileHeader_new cfg =
     \<lparr>numBytes = -1, numSectors = -1, dataSectors = replicate (NumSlots cfg) (-1),
      indirectTable = replicate (NumIndirect cfg) None\<rparr>"

text \<open>
  The loop \<^verbatim>\<open>for (i = 0; i < n; i++) { dataSectors[i] = freeMap->FindAndSet();
  ASSERT(dataSectors[i] >= 0); }\<close> of \<^verbatim>\<open>Allocate\<close> and \<^verbatim>\<open>AllocateIndirect\<close>, from index \<open>i\<close>
  with \<open>n\<close> iterations left.
\<close>

fun alloc_sectors :: "nat \<Rightarrow> nat \<Rightarrow> int list \<Rightarrow> Bitmap \<Rightarrow> fault + (int list \<times> Bitmap)" where
  "alloc_sectors i 0 ds bm = Inr (ds, bm)"
| "alloc_sectors i (Suc n) ds bm =
     (if length ds \<le> i then Inl OutOfBounds
      else case FindAndSet bm of (s, bm') \<Rightarrow>
        if s < 0 then Inl AssertFail
        else alloc_sectors (Suc i) n (ds[i := s]) bm')"

definition AllocateIndirect ::
  "config \<Rightarrow> Bitmap \<Rightarrow> int \<Rightarrow> hdr_image \<Rightarrow> fault + (bool \<times> hdr_image \<times> Bitmap)" where
  "AllocateIndirect cfg freeMap sectorNum c =
     (if int (NumClear freeMap) < sectorNum then Inr (False, c, freeMap)
      else
        (case alloc_sectors 0 (nat sectorNum) (dataSectors c) freeMap of
           Inl e \<Rightarrow> Inl e
         | Inr (ds, bm) \<Rightarrow>
             Inr (True,
                  c\<lparr>numBytes := sectorNum * int (SectorSize cfg), numSectors := sectorNum,
                    dataSectors := ds\<rparr>, bm)))"

text \<open>
  The loop over the indirect slots in \<^verbatim>\<open>Allocate\<close>, at slot \<open>i\<close> with \<open>n\<close> iterations left and
  \<open>offset\<close> sectors still to place.
\<close>

fun alloc_indirect ::
  "config \<Rightarrow> nat \<Rightarrow> nat \<Rightarrow> int \<Rightarrow> FileHeader \<Rightarrow> Bitmap \<Rightarrow> fault + (bool \<times> FileHeader \<times> Bitmap)" where
  "alloc_indirect cfg i 0 offset h bm = Inr (True, h, bm)"
| "alloc_indirect cfg i (Suc n) offset h bm =
     (if length (dataSectors h) \<le> NumDirect cfg + i \<or> length (indirectTable h) \<le> i
      then Inl OutOfBounds
      else case FindAndSet bm of (s, bm1) \<Rightarrow>
        if s < 0 then Inl AssertFail
        else
          let h1 = h\<lparr>dataSectors := (dataSectors h)[NumDirect cfg + i := s]\<rparr>;
              sectorNum = (if int (NumMaxSect cfg) > offset then offset else int (NumMaxSect cfg));
              offset' = offset - sectorNum
          in if offset' < 0 then Inl AssertFail
             else
               (case AllocateIndirect cfg bm1 sectorNum (hdr_image_new cfg) of
                  Inl e \<Rightarrow> Inl e
                | Inr (result, c, bm2) \<Rightarrow>
                    let h2 = h1\<lparr>indirectTable := (indirectTable h1)[i := Some c]\<rparr>
                    in if \<not> result then Inr (False, h2, bm2)
                       else alloc_indirect cfg (Suc i) n offset' h2 bm2))"

definition Allocate ::
  "config \<Rightarrow> Bitmap \<Rightarrow> int \<Rightarrow> FileHeader \<Rightarrow> fault + (bool \<times> FileHeader \<times> Bitmap)" where
  "Allocate cfg freeMap fileSize h =
     (let nS = divRoundUp fileSize (int (SectorSize cfg));
          h1 = h\<lparr>numBytes := fileSize, numSectors := nS\<rparr>
      in if int (NumClear freeMap) < nS then Inr (False, h1, freeMap)
         else
           let sectorNeeds = (if nS \<le> int (NumDirect cfg) then nS else int (NumDirect cfg));
               offset = nS - sectorNeeds
           in (case alloc_sectors 0 (nat sectorNeeds) (dataSectors h1) freeMap of
                 Inl e \<Rightarrow> Inl e
               | Inr (ds, bm1) \<Rightarrow>
                   let h2 = h1\<lparr>dataSectors := ds\<rparr>
                   in if offset > 0 then
                        let indexNeeds = divRoundUp offset (int (NumMaxSect cfg));
                            indirectSize = (if indexNeeds \<le> int (NumIndirect cfg) then indexNeeds
                                            else int (NumIndirect cfg))
                        in alloc_indirect cfg 0 (nat indirectSize) offset h2 bm1
                      else Inr (True, h2, bm1)))"

text \<open>
  \<^verbatim>\<open>ASSERT(freeMap->Test(s)); freeMap->Clear(s);\<close> as one step.
\<close>

definition release :: "Bitmap \<Rightarrow> int \<Rightarrow> fault + Bitmap" where
  "release bm s =
     (case Test bm s of Inl e \<Rightarrow> Inl e | Inr False \<Rightarrow> Inl AssertFail | Inr True \<Rightarrow> Clear bm s)"

lemma count_set_update_less:
  "i < length bm \<Longrightarrow> bm ! i \<Longrightarrow> length (filter id (bm[i := False])) < length (filter id bm)"
proof (induction bm arbitrary: i)
  case Nil
  then show ?case by simp
next
  case (Cons b bs)
  then show ?case by (cases i) auto
qed

lemma release_count_less:
  "release bm s = Inr bm' \<Longrightarrow> length (filter id bm') < length (filter id bm)"
  by (auto simp: release_def Test_def Clear_def valid_bit_def count_set_update_less
      split: if_splits bool.splits)

text \<open>
  \<^verbatim>\<open>Deallocate\<close>.  The inner loop \<^verbatim>\<open>for (j = 0; j < indirectTable[i]->numSectors; j)\<close> never
  changes \<open>j\<close> and tests and clears \<^verbatim>\<open>indirectTable[i]->dataSectors[i]\<close> (index \<open>i\<close> of the
  outer loop) each time round.  Once entered it can end only by a failed \<^verbatim>\<open>ASSERT\<close>; it
  terminates because every round clears a set bit.
\<close>

function dealloc_inner :: "hdr_image \<Rightarrow> nat \<Rightarrow> int \<Rightarrow> Bitmap \<Rightarrow> fault + Bitmap" where
  "dealloc_inner c i j bm =
     (if j < numSectors c then
        (if length (dataSectors c) \<le> i then Inl OutOfBounds
         else case release bm (dataSectors c ! i) of
                Inl e \<Rightarrow> Inl e
              | Inr bm' \<Rightarrow> dealloc_inner c i j bm')
      else Inr bm)"
  by pat_completeness auto
termination
  by (relation "measure (\<lambda>(c, i, j, bm). length (filter id bm))")
     (auto simp: release_count_less)

text \<open>The outer loop \<^verbatim>\<open>for (i = 0; i < NumMaxSect; i++)\<close>, at \<open>i\<close> with \<open>n\<close> iterations left.\<close>

fun dealloc_loop :: "nat \<Rightarrow> nat \<Rightarrow> FileHeader \<Rightarrow> Bitmap \<Rightarrow> fault + Bitmap" where
  "dealloc_loop i 0 h bm = Inr bm"
| "dealloc_loop i (Suc n) h bm =
     (if length (indirectTable h) \<le> i then Inl OutOfBounds
      else case (case indirectTable h ! i of
                   None \<Rightarrow> Inr bm
                 | Some c \<Rightarrow> dealloc_inner c i 0 bm) of
             Inl e \<Rightarrow> Inl e
           | Inr bm1 \<Rightarrow>
               if length (dataSectors h) \<le> i then Inl OutOfBounds
               else if dataSectors h ! i \<noteq> -1 then
                 (case release bm1 (dataSectors h ! i) of
                    Inl e \<Rightarrow> Inl e
                  | Inr bm2 \<Rightarrow> dealloc_loop (Suc i) n h bm2)
               else dealloc_loop (Suc i) n h bm1)"

definition Deallocate :: "config \<Rightarrow> FileHeader \<Rightarrow> Bitmap \<Rightarrow> fault + Bitmap" where
  "Deallocate cfg h freeMap = dealloc_loop 0 (NumMaxSect cfg) h freeMap"

text \<open>
  \<^verbatim>\<open>ByteToSector\<close>.  \<^verbatim>\<open>indirectTable[index]\<close> is read without a bound check and
  dereferenced without a NULL check; when \<^verbatim>\<open>position\<close> is negative after the subtraction
  the function ends without \<^verbatim>\<open>return\<close>.
\<close>

definition ByteToSector :: "config \<Rightarrow> FileHeader \<Rightarrow> int \<Rightarrow> fault + int" where
  "ByteToSector cfg h offset =
     (let position = c_div offset (int (SectorSize cfg))
      in if position < int (NumDirect cfg) then
           (if position < 0 \<or> length (dataSectors h) \<le> nat position then Inl OutOfBounds
            else Inr (dataSectors h ! nat position))
         else
           let position' = position - int (NumDirect cfg)
           in if position' \<ge> 0 then
                let index = c_div position' (int (NumMaxSect cfg));
                    p = c_mod position' (int (NumMaxSect cfg))
                in if index < 0 \<or> length (indirectTable h) \<le> nat index then Inl OutOfBounds
                   else (case indirectTable h ! nat index of
                           None \<Rightarrow> Inl NullDeref
                         | Some c \<Rightarrow>
                             if p < 0 \<or> length (dataSectors c) \<le> nat p then Inl OutOfBounds
                             else Inr (dataSectors c ! nat p))
              else Inl Uninitialised)"

definition FileLength :: "FileHeader \<Rightarrow> int" where
  "FileLength h = numBytes h"

section \<open>Directory entries and the disk\<close>

record DirectoryEntry =
  inUse :: bool
  sector :: int
  name :: string
  isDir :: bool

type_synonym Directory = "DirectoryEntry list"

text \<open>
  The raw disk is outside the file system; it is a store from sector numbers to sector
  contents.  A sector holds the image of a file header, or (the data block of a directory
  file) a directory table, or (the data block of the free-map file) a bitmap, or nothing
  the file system wrote.  Reading a sector as a record of another kind is the fault
  \<open>BadSector\<close>: the C++ code would reinterpret the bytes.
\<close>

datatype sector_data =
  HdrSector hdr_image | DirSector Directory | MapSector Bitmap | Unformatted

type_synonym Disk = "int \<Rightarrow> sector_data"

definition read_hdr :: "config \<Rightarrow> Disk \<Rightarrow> int \<Rightarrow> fault + hdr_image" where
  "read_hdr cfg disk s =
     (case disk s of
        HdrSector img \<Rightarrow> if length (dataSectors img) = NumSlots cfg then Inr img else Inl BadSector
      | _ \<Rightarrow> Inl BadSector)"

text \<open>
  \<^verbatim>\<open>FetchFrom\<close>: the sector is read over the object, then the loop over the indirect slots
  loads the indirect headers and stops at the first slot that holds -1.
\<close>

fun fetch_indirect :: "config \<Rightarrow> Disk \<Rightarrow> nat \<Rightarrow> nat \<Rightarrow> FileHeader \<Rightarrow> fault + FileHeader" where
  "fetch_indirect cfg disk i 0 h = Inr h"
| "fetch_indirect cfg disk i (Suc n) h =
     (if dataSectors h ! (NumDirect cfg + i) = -1 then Inr h
      else case read_hdr cfg disk (dataSectors h ! (NumDirect cfg + i)) of
             Inl e \<Rightarrow> Inl e
           | Inr c \<Rightarrow>
               fetch_indirect cfg disk (Suc i) n
                 (h\<lparr>indirectTable := (indirectTable h)[i := Some c]\<rparr>))"

definition FetchFrom :: "config \<Rightarrow> Disk \<Rightarrow> int \<Rightarrow> FileHeader \<Rightarrow> fault + FileHeader" where
  "FetchFrom cfg disk s h =
     (case read_hdr cfg disk s of
        Inl e \<Rightarrow> Inl e
      | Inr img \<Rightarrow>
          fetch_indirect cfg disk 0 (NumIndirect cfg)
            (h\<lparr>numBytes := numBytes img, numSectors := numSectors img,
               dataSectors := dataSectors img\<rparr>))"

text \<open>
  \<^verbatim>\<open>WriteBack\<close>: the header goes to \<open>s\<close>, then every indirect header that is present goes
  to the sector its slot names.
\<close>

fun write_indirect :: "config \<Rightarrow> nat \<Rightarrow> nat \<Rightarrow> FileHeader \<Rightarrow> Disk \<Rightarrow> Disk" where
  "write_indirect cfg i 0 h disk = disk"
| "write_indirect cfg i (Suc n) h disk =
     write_indirect cfg (Suc i) n h
       (case indirectTable h ! i of
          None \<Rightarrow> disk
        | Some c \<Rightarrow> disk(dataSectors h ! (i + NumDirect cfg) := HdrSector c))"

definition WriteBack :: "config \<Rightarrow> FileHeader \<Rightarrow> int \<Rightarrow> Disk \<Rightarrow> Disk" where
  "WriteBack cfg h s disk =
     write_indirect cfg 0 (NumIndirect cfg) h (disk(s := HdrSector (image_of h)))"

section \<open>The table of open files\<close>

text \<open>
  \<^verbatim>\<open>CloseFileId\<close> reads \<^verbatim>\<open>SysWideOpenFileTable[id]\<close> with no check of \<open>id\<close>.  The table is a
  list of pointers (\<open>None\<close> is NULL); \<open>'f\<close> is the type of open files.
\<close>

definition CloseFileId :: "int \<Rightarrow> 'f option list \<Rightarrow> fault + (int \<times> 'f option list)" where
  "CloseFileId fd tbl =
     (if fd < 0 \<or> length tbl \<le> nat fd then Inl OutOfBounds
      else case tbl ! nat fd of
             None \<Rightarrow> Inr (0, tbl)
           | Some file \<Rightarrow> Inr (1, tbl[nat fd := None]))"

section \<open>Derived notions and concrete data\<close>

text \<open>Indirect slot \<open>k\<close> of a header: \<^verbatim>\<open>dataSectors[NumDirect + k]\<close>.\<close>

definition slot :: "config \<Rightarrow> FileHeader \<Rightarrow> nat \<Rightarrow> int" where
  "slot cfg h k = dataSectors h ! (NumDirect cfg + k)"

text \<open>The sectors of the indirect headers of \<open>h\<close>: the indirect slots that do not hold -1.\<close>

definition indirect_sectors :: "config \<Rightarrow> FileHeader \<Rightarrow> int list" where
  "indirect_sectors cfg h = filter (\<lambda>s. s \<noteq> -1) (drop (NumDirect cfg) (dataSectors h))"

text \<open>The number of indirect headers \<^verbatim>\<open>Allocate\<close> sets up for a file of \<open>nS\<close> sectors.\<close>

definition indirect_count :: "config \<Rightarrow> int \<Rightarrow> nat" where
  "indirect_count cfg nS =
     (if nS > int (NumDirect cfg)
      then nat (min (divRoundUp (nS - int (NumDirect cfg)) (int (NumMaxSect cfg)))
                    (int (NumIndirect cfg)))
      else 0)"

text \<open>The sequence \<open>ByteToSector(k)\<close> for \<open>k\<close> in \<open>[0, L)\<close>.\<close>

definition sector_sequence :: "config \<Rightarrow> FileHeader \<Rightarrow> int \<Rightarrow> (fault + int) list" where
  "sector_sequence cfg h L = map (\<lambda>k. ByteToSector cfg h (int k)) [0..<nat L]"

text \<open>
  A small build used for the concrete runs: 128-byte sectors, four direct and four indirect
  slots, four pointers per indirect header, a 64-sector disk.
\<close>

definition cfg0 :: config where
  "cfg0 = \<lparr>SectorSize = 128, NumDirect = 4, NumIndirect = 4, NumMaxSect = 4, NumSectors = 64,
            NumDirEntries = 4, FreeMapFileSize = 8, DirectoryFileSize = 96, FileNameMaxLen = 9,
            MAX_PATH_LEN = 255\<rparr>"

text \<open>A free map of 64 bits with the sectors 0 to 3 in use.\<close>

definition bm0 :: Bitmap where
  "bm0 = replicate 4 True @ replicate 60 False"

text \<open>What \<^verbatim>\<open>Allocate\<close> makes on \<open>bm0\<close> of a file of 640 bytes (five sectors, one indirect header).\<close>

definition hdr5 :: FileHeader where
  "hdr5 = \<lparr>numBytes = 640, numSectors = 5,
            dataSectors = [4, 5, 6, 7, 8, - 1, - 1, - 1],
            indirectTable =
              [Some \<lparr>numBytes = 128, numSectors = 1,
                     dataSectors = [9, - 1, - 1, - 1, - 1, - 1, - 1, - 1]\<rparr>,
               None, None, None]\<rparr>"

definition bm5 :: Bitmap where
  "bm5 = replicate 10 True @ replicate 54 False"

text \<open>
  What \<^verbatim>\<open>Allocate\<close> makes on \<open>bm0\<close> of a file of 2688 bytes: 21 sectors, one more than the
  20 that four direct slots and four indirect headers of four pointers address.
\<close>

definition hdr_big :: FileHeader where
  "hdr_big = \<lparr>numBytes = 2688, numSectors = 21,
     dataSectors = [4, 5, 6, 7, 8, 13, 18, 23],
     indirectTable =
       [Some \<lparr>numBytes = 512, numSectors = 4, dataSectors = [9, 10, 11, 12, - 1, - 1, - 1, - 1]\<rparr>,
        Some \<lparr>numBytes = 512, numSectors = 4, dataSectors = [14, 15, 16, 17, - 1, - 1, - 1, - 1]\<rparr>,
        Some \<lparr>numBytes = 512, numSectors = 4, dataSectors = [19, 20, 21, 22, - 1, - 1, - 1, - 1]\<rparr>,
        Some \<lparr>numBytes = 512, numSectors = 4, dataSectors = [24, 25, 26, 27, - 1, - 1, - 1, - 1]\<rparr>]\<rparr>"

definition bm_big :: Bitmap where
  "bm_big = replicate 28 True @ replicate 36 False"

definition empty_disk :: Disk where
  "empty_disk = (\<lambda>s. Unformatted)"

text \<open>What \<^verbatim>\<open>FetchFrom(8)\<close> reads after \<open>hdr5\<close> was written back to sector 8.\<close>

definition hdr5_back :: FileHeader where
  "hdr5_back = \<lparr>numBytes = 128, numSectors = 1,
                 dataSectors = [9, - 1, - 1, - 1, - 1, - 1, - 1, - 1],
                 indirectTable = [None, None, None, None]\<rparr>"

section \<open>Directories\<close>

text \<open>
  C strings are modelled as \<open>string\<close>s without the terminator.  \<^verbatim>\<open>strncmp(a, b, n) == 0\<close>
  compares at most \<open>n\<close> characters, and \<^verbatim>\<open>strncpy(dst, src, n)\<close> into the zeroed name field
  keeps at most \<open>n\<close> characters.
\<close>

definition strncmp_eq :: "nat \<Rightarrow> string \<Rightarrow> string \<Rightarrow> bool" where
  "strncmp_eq n a b \<longleftrightarrow> take n a = take n b"

text \<open>The constructor \<^verbatim>\<open>Directory::Directory(size)\<close>: a zeroed table, no entry in use.\<close>

definition Directory_new :: "nat \<Rightarrow> Directory" where
  "Directory_new n = replicate n \<lparr>inUse = False, sector = 0, name = [], isDir = False\<rparr>"

definition FindIndex :: "config \<Rightarrow> Directory \<Rightarrow> string \<Rightarrow> int" where
  "FindIndex cfg table nm =
     (case find (\<lambda>i. inUse (table ! i) \<and> strncmp_eq (FileNameMaxLen cfg) (name (table ! i)) nm)
             [0..<length table] of
        None \<Rightarrow> -1
      | Some i \<Rightarrow> int i)"

definition Find :: "config \<Rightarrow> Directory \<Rightarrow> string \<Rightarrow> int" where
  "Find cfg table nm =
     (let i = FindIndex cfg table nm
      in if i \<noteq> -1 then sector (table ! nat i) else -1)"

definition Add :: "config \<Rightarrow> Directory \<Rightarrow> string \<Rightarrow> int \<Rightarrow> bool \<Rightarrow> bool \<times> Directory" where
  "Add cfg table nm newSector dir =
     (if FindIndex cfg table nm \<noteq> -1 then (False, table)
      else case find (\<lambda>i. \<not> inUse (table ! i)) [0..<length table] of
             None \<Rightarrow> (False, table)
           | Some i \<Rightarrow>
               (True, table[i := \<lparr>inUse = True, sector = newSector,
                                  name = take (FileNameMaxLen cfg) nm, isDir = dir\<rparr>]))"

definition Directory_Remove :: "config \<Rightarrow> Directory \<Rightarrow> string \<Rightarrow> bool \<times> Directory" where
  "Directory_Remove cfg table nm =
     (let i = FindIndex cfg table nm
      in if i = -1 then (False, table)
         else (True, table[nat i := (table ! nat i)\<lparr>inUse := False\<rparr>]))"

section \<open>Open files\<close>

text \<open>
  Modelled from the spec: \<^verbatim>\<open>OpenFile\<close> (\<^verbatim>\<open>openfile.cc\<close>) is not part of the sources.  An open
  file is the header fetched from its sector when it is opened.  The spec gives a directory
  as a file whose header points to a single data block holding the table (3), the free map
  as the data of file header 0, and \<open>fetch_from\<close>/\<open>write_back\<close> as a round trip of the image
  through the file (4.1, 4.3).  So the record a file holds lives in the data block of byte 0,
  found with \<^verbatim>\<open>ByteToSector\<close>; a file of no bytes holds nothing and nothing is read from or
  written to it.
\<close>

definition OpenFile_new :: "config \<Rightarrow> Disk \<Rightarrow> int \<Rightarrow> fault + FileHeader" where
  "OpenFile_new cfg disk s = FetchFrom cfg disk s (FileHeader_new cfg)"

definition body_sector :: "config \<Rightarrow> FileHeader \<Rightarrow> fault + int option" where
  "body_sector cfg file =
     (if numBytes file \<le> 0 then Inr None
      else case ByteToSector cfg file 0 of Inl e \<Rightarrow> Inl e | Inr s \<Rightarrow> Inr (Some s))"

text \<open>
  \<^verbatim>\<open>Directory::FetchFrom\<close> reads over the table as many entries as the file holds;
  \<^verbatim>\<open>Directory::WriteBack\<close> writes the table.
\<close>

definition Directory_FetchFrom ::
  "config \<Rightarrow> Disk \<Rightarrow> FileHeader \<Rightarrow> Directory \<Rightarrow> fault + Directory" where
  "Directory_FetchFrom cfg disk file table =
     (case body_sector cfg file of
        Inl e \<Rightarrow> Inl e
      | Inr None \<Rightarrow> Inr table
      | Inr (Some s) \<Rightarrow>
          (case disk s of
             DirSector t \<Rightarrow> Inr (take (length table) t @ drop (length t) table)
           | _ \<Rightarrow> Inl BadSector))"

definition Directory_WriteBack ::
  "config \<Rightarrow> Disk \<Rightarrow> FileHeader \<Rightarrow> Directory \<Rightarrow> fault + Disk" where
  "Directory_WriteBack cfg disk file table =
     (case body_sector cfg file of
        Inl e \<Rightarrow> Inl e
      | Inr None \<Rightarrow> Inr disk
      | Inr (Some s) \<Rightarrow> Inr (disk(s := DirSector table)))"

text \<open>\<^verbatim>\<open>PersistentBitmap(file, numItems)\<close> and \<^verbatim>\<open>PersistentBitmap::WriteBack\<close>.\<close>

definition PersistentBitmap_fetch :: "config \<Rightarrow> Disk \<Rightarrow> FileHeader \<Rightarrow> fault + Bitmap" where
  "PersistentBitmap_fetch cfg disk file =
     (case body_sector cfg file of
        Inl e \<Rightarrow> Inl e
      | Inr None \<Rightarrow> Inr (Bitmap_new (NumSectors cfg))
      | Inr (Some s) \<Rightarrow>
          (case disk s of
             MapSector bm \<Rightarrow> if length bm = NumSectors cfg then Inr bm else Inl BadSector
           | _ \<Rightarrow> Inl BadSector))"

definition PersistentBitmap_WriteBack ::
  "config \<Rightarrow> Disk \<Rightarrow> FileHeader \<Rightarrow> Bitmap \<Rightarrow> fault + Disk" where
  "PersistentBitmap_WriteBack cfg disk file bm =
     (case body_sector cfg file of
        Inl e \<Rightarrow> Inl e
      | Inr None \<Rightarrow> Inr disk
      | Inr (Some s) \<Rightarrow> Inr (disk(s := MapSector bm)))"

text \<open>
  Modelled from the spec: the macro \<^verbatim>\<open>OPENDIR(dir, file)\<close> is not part of the sources; as in
  \<^verbatim>\<open>Create\<close> it makes a directory of \<open>NumDirEntries\<close> entries and fetches it from the file.
\<close>

definition OPENDIR :: "config \<Rightarrow> Disk \<Rightarrow> FileHeader \<Rightarrow> fault + Directory" where
  "OPENDIR cfg disk file = Directory_FetchFrom cfg disk file (Directory_new (NumDirEntries cfg))"

section \<open>Path resolution\<close>

text \<open>
  \<^verbatim>\<open>ExtractBasePath\<close>.  The first loop leaves in \<^verbatim>\<open>mark\<close> the index of the last \<^verbatim>\<open>'/'\<close>; \<^verbatim>\<open>mark\<close>
  is not initialised, so a path without \<^verbatim>\<open>'/'\<close> uses an uninitialised value.  \<open>base_cap\<close> and
  \<open>name_cap\<close> are the sizes of the caller's buffers, which the copies do not check.
\<close>

fun scan_mark :: "string \<Rightarrow> nat \<Rightarrow> nat option \<Rightarrow> nat option" where
  "scan_mark [] i mark = mark"
| "scan_mark (c # cs) i mark = scan_mark cs (Suc i) (if c = CHR ''/'' then Some i else mark)"

definition ExtractBasePath :: "nat \<Rightarrow> nat \<Rightarrow> string \<Rightarrow> fault + (string \<times> string)" where
  "ExtractBasePath base_cap name_cap path =
     (case scan_mark path 0 None of
        None \<Rightarrow> Inl Uninitialised
      | Some mark \<Rightarrow>
          if base_cap \<le> length (take mark path) \<or> name_cap \<le> length (drop mark path)
          then Inl BufferOverflow
          else Inr (take mark path, drop mark path))"

text \<open>
  \<^verbatim>\<open>SearchPath(name, offset)\<close>.  The test \<^verbatim>\<open>name[1] == '\0'\<close> reads past the terminator when
  \<open>name\<close> is empty (in \<^verbatim>\<open>Create\<close> and \<^verbatim>\<open>Remove\<close> that byte of the base-path buffer was never
  written), and likewise \<^verbatim>\<open>name[1 + offset]\<close> when \<open>offset\<close> is the length of \<open>name\<close> or more.
  The component is copied into \<^verbatim>\<open>filename[FileNameMaxLen + 1]\<close> unchecked.  The directory of
  the next level is made with \<open>DirectoryFileSize\<close> entries.  Whether the component found is
  a directory is not checked.
\<close>

definition next_slash :: "string \<Rightarrow> nat \<Rightarrow> nat option" where
  "next_slash nm offset = find (\<lambda>i. nm ! (i + offset) = CHR ''/'') [1..<length nm - offset]"

lemma next_slash_bounds: "next_slash nm offset = Some i \<Longrightarrow> 1 \<le> i \<and> i + offset < length nm"
  by (auto simp: next_slash_def find_Some_iff)

function SearchPath :: "config \<Rightarrow> Disk \<Rightarrow> Directory \<Rightarrow> string \<Rightarrow> nat \<Rightarrow> fault + int" where
  "SearchPath cfg disk table nm offset =
     (if length nm < 1 then Inl Uninitialised
      else if length nm = 1 then Inr DirectorySector
      else if length nm < 1 + offset then Inl Uninitialised
      else case next_slash nm offset of
             None \<Rightarrow>
               if FileNameMaxLen cfg < length (drop offset nm) then Inl BufferOverflow
               else Inr (Find cfg table (drop offset nm))
           | Some i \<Rightarrow>
               if FileNameMaxLen cfg < i then Inl BufferOverflow
               else
                 let s = Find cfg table (take i (drop offset nm))
                 in if s = -1 then Inr s
                    else
                      (case OpenFile_new cfg disk s of
                         Inl e \<Rightarrow> Inl e
                       | Inr dir \<Rightarrow>
                           (case Directory_FetchFrom cfg disk dir
                                   (Directory_new (nat (DirectoryFileSize cfg))) of
                              Inl e \<Rightarrow> Inl e
                            | Inr directory \<Rightarrow> SearchPath cfg disk directory nm (i + offset))))"
  by pat_completeness auto
termination
  by (relation "measure (\<lambda>(cfg, disk, table, nm, offset). length nm - offset)")
     (auto dest: next_slash_bounds)

section \<open>The file system\<close>

text \<open>
  The state: the disk and the two files \<^verbatim>\<open>freeMapFile\<close> and \<^verbatim>\<open>directoryFile\<close> that stay open
  (their headers are read once, when the file system is set up).
\<close>

record FileSystem =
  disk :: Disk
  freeMapFile :: FileHeader
  directoryFile :: FileHeader

text \<open>The constructor \<^verbatim>\<open>FileSystem::FileSystem(format)\<close> with \<open>format\<close> true.\<close>

definition Format :: "config \<Rightarrow> Disk \<Rightarrow> fault + FileSystem" where
  "Format cfg disk0 =
     (case Mark (Bitmap_new (NumSectors cfg)) FreeMapSector of
        Inl e \<Rightarrow> Inl e
      | Inr fm0 \<Rightarrow>
     (case Mark fm0 DirectorySector of
        Inl e \<Rightarrow> Inl e
      | Inr fm1 \<Rightarrow>
     (case Allocate cfg fm1 (FreeMapFileSize cfg) (FileHeader_new cfg) of
        Inl e \<Rightarrow> Inl e
      | Inr (ok1, mapHdr, fm2) \<Rightarrow>
          if \<not> ok1 then Inl AssertFail
          else
     (case Allocate cfg fm2 (DirectoryFileSize cfg) (FileHeader_new cfg) of
        Inl e \<Rightarrow> Inl e
      | Inr (ok2, dirHdr, freeMap) \<Rightarrow>
          if \<not> ok2 then Inl AssertFail
          else
            let d1 = WriteBack cfg mapHdr FreeMapSector disk0;
                d2 = WriteBack cfg dirHdr DirectorySector d1
            in
     (case OpenFile_new cfg d2 FreeMapSector of
        Inl e \<Rightarrow> Inl e
      | Inr mapFile \<Rightarrow>
     (case OpenFile_new cfg d2 DirectorySector of
        Inl e \<Rightarrow> Inl e
      | Inr dirFile \<Rightarrow>
     (case PersistentBitmap_WriteBack cfg d2 mapFile freeMap of
        Inl e \<Rightarrow> Inl e
      | Inr d3 \<Rightarrow>
     (case Directory_WriteBack cfg d3 dirFile (Directory_new (NumDirEntries cfg)) of
        Inl e \<Rightarrow> Inl e
      | Inr d4 \<Rightarrow>
          Inr \<lparr>disk = d4, freeMapFile = mapFile, directoryFile = dirFile\<rparr>))))))))"

text \<open>
  \<^verbatim>\<open>Create\<close>.  The result is the value returned and the state left.  The leaf name goes into
  \<^verbatim>\<open>act_name[10]\<close>, the base path into \<^verbatim>\<open>BasedPath[MAX_PATH_LEN + 1]\<close>.
\<close>

definition Create ::
  "config \<Rightarrow> FileSystem \<Rightarrow> string \<Rightarrow> int \<Rightarrow> bool \<Rightarrow> fault + (int \<times> FileSystem)" where
  "Create cfg fs nm initialSize dir =
     (let fsize = (if dir then DirectoryFileSize cfg else initialSize) in
      case Directory_FetchFrom cfg (disk fs) (directoryFile fs)
             (Directory_new (NumDirEntries cfg)) of
        Inl e \<Rightarrow> Inl e
      | Inr rootDirectory \<Rightarrow>
     (case ExtractBasePath (MAX_PATH_LEN cfg + 1) 10 nm of
        Inl e \<Rightarrow> Inl e
      | Inr (BasedPath, act_name) \<Rightarrow>
     (case SearchPath cfg (disk fs) rootDirectory BasedPath 0 of
        Inl e \<Rightarrow> Inl e
      | Inr s \<Rightarrow>
          if s = -1 then Inr (0, fs)
          else
     (case OpenFile_new cfg (disk fs) s of
        Inl e \<Rightarrow> Inl e
      | Inr targetFile \<Rightarrow>
     (case Directory_FetchFrom cfg (disk fs) targetFile (Directory_new (NumDirEntries cfg)) of
        Inl e \<Rightarrow> Inl e
      | Inr targetDirectory \<Rightarrow>
          if Find cfg targetDirectory act_name \<noteq> -1 then Inr (0, fs)
          else
     (case PersistentBitmap_fetch cfg (disk fs) (freeMapFile fs) of
        Inl e \<Rightarrow> Inl e
      | Inr freeMap0 \<Rightarrow>
     (case FindAndSet freeMap0 of
        (hs, freeMap1) \<Rightarrow>
          if hs = -1 then Inr (0, fs)
          else
     (case Add cfg targetDirectory act_name hs dir of
        (added, targetDirectory') \<Rightarrow>
          if \<not> added then Inr (0, fs)
          else
     (case Allocate cfg freeMap1 fsize (FileHeader_new cfg) of
        Inl e \<Rightarrow> Inl e
      | Inr (ok, hdr, freeMap) \<Rightarrow>
          if \<not> ok then Inr (0, fs)
          else
     (case Directory_WriteBack cfg (WriteBack cfg hdr hs (disk fs)) targetFile targetDirectory' of
        Inl e \<Rightarrow> Inl e
      | Inr d2 \<Rightarrow>
     (case PersistentBitmap_WriteBack cfg d2 (freeMapFile fs) freeMap of
        Inl e \<Rightarrow> Inl e
      | Inr d3 \<Rightarrow>
          if dir then
            (case OpenFile_new cfg d3 hs of
               Inl e \<Rightarrow> Inl e
             | Inr newFile \<Rightarrow>
                 (case Directory_WriteBack cfg d3 newFile (Directory_new (NumDirEntries cfg)) of
                    Inl e \<Rightarrow> Inl e
                  | Inr d4 \<Rightarrow> Inr (1, fs\<lparr>disk := d4\<rparr>)))
          else Inr (1, fs\<lparr>disk := d3\<rparr>))))))))))))"

text \<open>
  \<^verbatim>\<open>Directory::Destroy\<close>.  \<open>Destroy_loop\<close> is the loop over the table from entry \<open>i\<close>; for an
  entry that is a directory it opens it, runs its own loop (the recursive call of
  \<^verbatim>\<open>Destroy\<close>) and writes that directory back.  The recursion follows what is on the disk
  and is bounded by \<open>fuel\<close>, the depth allowed.  \<^verbatim>\<open>tarPath[MAX_PATH_LEN + 1]\<close> receives the path
  and up to \<open>FileNameMaxLen\<close> characters of the entry's name, unchecked.
\<close>

lemma Directory_Remove_length: "length (snd (Directory_Remove cfg table nm)) = length table"
  by (simp add: Directory_Remove_def Let_def)

function Destroy_loop ::
  "nat \<Rightarrow> config \<Rightarrow> nat \<Rightarrow> Directory \<Rightarrow> string \<Rightarrow> Bitmap \<Rightarrow> Disk
     \<Rightarrow> fault + (Directory \<times> Bitmap \<times> Disk)" where
  "Destroy_loop fuel cfg i table path freeMap d =
     (if length table \<le> i then Inr (table, freeMap, d)
      else if inUse (table ! i) then
        (case (if isDir (table ! i) then
                 (case fuel of
                    0 \<Rightarrow> Inl OutOfFuel
                  | Suc fuel' \<Rightarrow>
                      (case OpenFile_new cfg d (sector (table ! i)) of
                         Inl e \<Rightarrow> Inl e
                       | Inr tarDir \<Rightarrow>
                      (case OPENDIR cfg d tarDir of
                         Inl e \<Rightarrow> Inl e
                       | Inr directory \<Rightarrow>
                           if MAX_PATH_LEN cfg \<le> length path \<or>
                              MAX_PATH_LEN cfg
                                < length path + length (take (FileNameMaxLen cfg) (name (table ! i)))
                           then Inl BufferOverflow
                           else
                      (case Destroy_loop fuel' cfg 0 directory
                              (path @ take (FileNameMaxLen cfg) (name (table ! i))) freeMap d of
                         Inl e \<Rightarrow> Inl e
                       | Inr (directory', freeMap', d') \<Rightarrow>
                      (case Directory_WriteBack cfg d' tarDir directory' of
                         Inl e \<Rightarrow> Inl e
                       | Inr d'' \<Rightarrow> Inr (freeMap', d''))))))
               else Inr (freeMap, d)) of
           Inl e \<Rightarrow> Inl e
         | Inr (freeMap1, d1) \<Rightarrow>
        (case FetchFrom cfg d1 (sector (table ! i)) (FileHeader_new cfg) of
           Inl e \<Rightarrow> Inl e
         | Inr fileHdr \<Rightarrow>
        (case Deallocate cfg fileHdr freeMap1 of
           Inl e \<Rightarrow> Inl e
         | Inr freeMap2 \<Rightarrow>
        (case Clear freeMap2 (sector (table ! i)) of
           Inl e \<Rightarrow> Inl e
         | Inr freeMap3 \<Rightarrow>
             Destroy_loop fuel cfg (Suc i)
               (snd (Directory_Remove cfg table (name (table ! i)))) path freeMap3 d1))))
      else Destroy_loop fuel cfg (Suc i) table path freeMap d)"
  by pat_completeness auto
termination
  by (relation "inv_image (less_than <*lex*> less_than)
                  (\<lambda>(fuel, cfg, i, table, path, freeMap, d). (fuel, length table - i))")
     (auto simp: Directory_Remove_length)

definition Destroy ::
  "nat \<Rightarrow> config \<Rightarrow> Directory \<Rightarrow> string \<Rightarrow> FileHeader \<Rightarrow> Bitmap \<Rightarrow> Disk
     \<Rightarrow> fault + (Directory \<times> Bitmap \<times> Disk)" where
  "Destroy fuel cfg table path file freeMap d =
     (case Destroy_loop fuel cfg 0 table path freeMap d of
        Inl e \<Rightarrow> Inl e
      | Inr (table', freeMap', d') \<Rightarrow>
          (case Directory_WriteBack cfg d' file table' of
             Inl e \<Rightarrow> Inl e
           | Inr d'' \<Rightarrow> Inr (table', freeMap', d'')))"

text \<open>
  \<^verbatim>\<open>Remove\<close>.  The leaf name goes into \<^verbatim>\<open>filename[FileNameMaxLen + 1]\<close>.  The free map is
  written back before the base directory.
\<close>

definition Remove ::
  "nat \<Rightarrow> config \<Rightarrow> FileSystem \<Rightarrow> string \<Rightarrow> bool \<Rightarrow> fault + (bool \<times> FileSystem)" where
  "Remove fuel cfg fs nm recur =
     (case OPENDIR cfg (disk fs) (directoryFile fs) of
        Inl e \<Rightarrow> Inl e
      | Inr rootDirectory \<Rightarrow>
     (case ExtractBasePath (MAX_PATH_LEN cfg + 1) (FileNameMaxLen cfg + 1) nm of
        Inl e \<Rightarrow> Inl e
      | Inr (BasePath, filename) \<Rightarrow>
     (case SearchPath cfg (disk fs) rootDirectory BasePath 0 of
        Inl e \<Rightarrow> Inl e
      | Inr bs \<Rightarrow>
          if bs = -1 then Inr (False, fs)
          else
     (case OpenFile_new cfg (disk fs) bs of
        Inl e \<Rightarrow> Inl e
      | Inr baseDir \<Rightarrow>
     (case OPENDIR cfg (disk fs) baseDir of
        Inl e \<Rightarrow> Inl e
      | Inr baseDirectory \<Rightarrow>
          let s = Find cfg baseDirectory filename
          in if s = -1 \<or> s = DirectorySector then Inr (False, fs)
             else
     (case PersistentBitmap_fetch cfg (disk fs) (freeMapFile fs) of
        Inl e \<Rightarrow> Inl e
      | Inr freeMap0 \<Rightarrow>
     (case (if recur then
              (case OpenFile_new cfg (disk fs) s of
                 Inl e \<Rightarrow> Inl e
               | Inr tarDir \<Rightarrow>
              (case OPENDIR cfg (disk fs) tarDir of
                 Inl e \<Rightarrow> Inl e
               | Inr targetDirectory \<Rightarrow>
              (case Destroy fuel cfg targetDirectory nm tarDir freeMap0 (disk fs) of
                 Inl e \<Rightarrow> Inl e
               | Inr (t, freeMap', d') \<Rightarrow> Inr (freeMap', d'))))
            else Inr (freeMap0, disk fs)) of
        Inl e \<Rightarrow> Inl e
      | Inr (freeMap1, d1) \<Rightarrow>
     (case FetchFrom cfg d1 s (FileHeader_new cfg) of
        Inl e \<Rightarrow> Inl e
      | Inr fileHdr \<Rightarrow>
     (case Deallocate cfg fileHdr freeMap1 of
        Inl e \<Rightarrow> Inl e
      | Inr freeMap2 \<Rightarrow>
     (case Clear freeMap2 s of
        Inl e \<Rightarrow> Inl e
      | Inr freeMap \<Rightarrow>
     (case PersistentBitmap_WriteBack cfg d1 (freeMapFile fs) freeMap of
        Inl e \<Rightarrow> Inl e
      | Inr d2 \<Rightarrow>
     (case Directory_WriteBack cfg d2 baseDir
             (snd (Directory_Remove cfg baseDirectory filename)) of
        Inl e \<Rightarrow> Inl e
      | Inr d3 \<Rightarrow> Inr (True, fs\<lparr>disk := d3\<rparr>)))))))))))))"

section \<open>Names in directories, and concrete volumes\<close>

text \<open>Every entry in use has a name that begins with the separator.\<close>

definition slash_names :: "Directory \<Rightarrow> bool" where
  "slash_names table \<longleftrightarrow>
     list_all (\<lambda>e. inUse e \<longrightarrow> name e \<noteq> [] \<and> hd (name e) = CHR ''/'') table"

definition slash_disk :: "Disk \<Rightarrow> bool" where
  "slash_disk d \<longleftrightarrow> (\<forall>s. case d s of DirSector t \<Rightarrow> slash_names t | _ \<Rightarrow> True)"

text \<open>The value an operation returns, and the state it leaves.\<close>

definition result_of :: "fault + ('r \<times> FileSystem) \<Rightarrow> fault + 'r" where
  "result_of x = (case x of Inl e \<Rightarrow> Inl e | Inr (r, fs) \<Rightarrow> Inr r)"

definition state_of :: "fault + ('r \<times> FileSystem) \<Rightarrow> FileSystem" where
  "state_of x = snd (projr x)"

text \<open>
  The volume of \<open>cfg0\<close> formatted on a blank disk; then with a file \<^verbatim>\<open>//a\<close> of 200 bytes; and
  with two files of 2560 bytes, which leaves ten sectors free.
\<close>

definition fs0 :: FileSystem where
  "fs0 = projr (Format cfg0 empty_disk)"

definition fs_a :: FileSystem where
  "fs_a = state_of (Create cfg0 fs0 ''//a'' 200 False)"

definition fs_full :: FileSystem where
  "fs_full =
     state_of (Create cfg0 (state_of (Create cfg0 fs0 ''//f'' 2560 False)) ''//g'' 2560 False)"

definition root_a :: Directory where
  "root_a = [\<lparr>inUse = True, sector = 4, name = ''/a'', isDir = False\<rparr>,
             \<lparr>inUse = False, sector = 0, name = [], isDir = False\<rparr>,
             \<lparr>inUse = False, sector = 0, name = [], isDir = False\<rparr>,
             \<lparr>inUse = False, sector = 0, name = [], isDir = False\<rparr>]"

text \<open>A volume whose root directory holds an entry that names the root's own header sector.\<close>

definition root_loop :: Directory where
  "root_loop = [\<lparr>inUse = True, sector = 1, name = ''/r'', isDir = True\<rparr>,
                \<lparr>inUse = False, sector = 0, name = [], isDir = False\<rparr>,
                \<lparr>inUse = False, sector = 0, name = [], isDir = False\<rparr>,
                \<lparr>inUse = False, sector = 0, name = [], isDir = False\<rparr>]"

definition fs_loop :: FileSystem where
  "fs_loop = fs0\<lparr>disk := (disk fs0)(3 := DirSector root_loop)\<rparr>"

section \<open>The sectors of the files on a volume\<close>

text \<open>
  The sectors a header in memory names: the slots of \<^verbatim>\<open>dataSectors\<close> that do not hold -1 (the
  direct data sectors and the sectors of the indirect headers), and the data sectors the
  indirect headers name.
\<close>

definition indirect_headers :: "FileHeader \<Rightarrow> hdr_image list" where
  "indirect_headers h = concat (map (\<lambda>x. case x of None \<Rightarrow> [] | Some c \<Rightarrow> [c]) (indirectTable h))"

definition used_slots :: "int list \<Rightarrow> int list" where
  "used_slots ds = filter (\<lambda>s. s \<noteq> -1) ds"

definition hdr_sector_list :: "FileHeader \<Rightarrow> int list" where
  "hdr_sector_list h =
     used_slots (dataSectors h) @ concat (map (\<lambda>c. used_slots (dataSectors c)) (indirect_headers h))"

definition hdr_sectors :: "FileHeader \<Rightarrow> int set" where
  "hdr_sectors h = set (hdr_sector_list h)"

text \<open>The data sectors of the indirect header in entry \<open>k\<close> of the table.\<close>

definition kid_sectors :: "FileHeader \<Rightarrow> nat \<Rightarrow> int set" where
  "kid_sectors h k = (case indirectTable h ! k of None \<Rightarrow> {} | Some c \<Rightarrow> set (used_slots (dataSectors c)))"

text \<open>A sector that holds the image of a header.\<close>

definition is_hdr :: "sector_data \<Rightarrow> bool" where
  "is_hdr x = (case x of HdrSector _ \<Rightarrow> True | _ \<Rightarrow> False)"

text \<open>
  The entries in use of the directory whose header is in sector \<open>ds\<close>, read as \<^verbatim>\<open>Directory::List\<close>
  and \<^verbatim>\<open>Directory::Destroy\<close> read a directory: the file is opened and the table fetched from
  it.
\<close>

definition entries_of :: "config \<Rightarrow> Disk \<Rightarrow> int \<Rightarrow> DirectoryEntry list" where
  "entries_of cfg d ds =
     (case OpenFile_new cfg d ds of
        Inl e \<Rightarrow> []
      | Inr h \<Rightarrow> (case OPENDIR cfg d h of Inl e \<Rightarrow> [] | Inr t \<Rightarrow> filter inUse t))"

text \<open>
  The entries reachable from the root directory: those of the root, and those of every
  directory that a reachable entry flagged \<^verbatim>\<open>isDir\<close> names.  This is the traversal of the
  recursive \<^verbatim>\<open>Directory::List\<close>.
\<close>

inductive reachable :: "config \<Rightarrow> Disk \<Rightarrow> DirectoryEntry \<Rightarrow> bool" for cfg :: config and d :: Disk where
  in_root: "e \<in> set (entries_of cfg d DirectorySector) \<Longrightarrow> reachable cfg d e"
| in_sub: "reachable cfg d p \<Longrightarrow> isDir p \<Longrightarrow> e \<in> set (entries_of cfg d (sector p)) \<Longrightarrow> reachable cfg d e"

code_pred reachable .

text \<open>
  The sectors of the file an entry names: its header sector and the sectors its header
  names.  \<open>reachable_sectors\<close> collects them over the reachable entries.
\<close>

definition file_sectors :: "config \<Rightarrow> Disk \<Rightarrow> DirectoryEntry \<Rightarrow> int set" where
  "file_sectors cfg d e =
     (case OpenFile_new cfg d (sector e) of
        Inl _ \<Rightarrow> {sector e}
      | Inr h \<Rightarrow> insert (sector e) (hdr_sectors h))"

definition reachable_sectors :: "config \<Rightarrow> Disk \<Rightarrow> int set" where
  "reachable_sectors cfg d = (\<Union>e\<in>{e. reachable cfg d e}. file_sectors cfg d e)"

text \<open>The header sector of a directory: the root's, or one a reachable directory entry names.\<close>

definition is_directory :: "config \<Rightarrow> Disk \<Rightarrow> int \<Rightarrow> bool" where
  "is_directory cfg d s \<longleftrightarrow> s = DirectorySector \<or> (\<exists>p. reachable cfg d p \<and> isDir p \<and> sector p = s)"

text \<open>
  The sector \<^verbatim>\<open>SearchPath\<close> returns to \<^verbatim>\<open>Create\<close> for the base path of \<open>nm\<close>: the first steps of
  \<^verbatim>\<open>Create\<close>, up to the call of \<^verbatim>\<open>SearchPath\<close>.
\<close>

definition Create_base :: "config \<Rightarrow> FileSystem \<Rightarrow> string \<Rightarrow> fault + int" where
  "Create_base cfg fs nm =
     (case Directory_FetchFrom cfg (disk fs) (directoryFile fs)
             (Directory_new (NumDirEntries cfg)) of
        Inl e \<Rightarrow> Inl e
      | Inr rootDirectory \<Rightarrow>
     (case ExtractBasePath (MAX_PATH_LEN cfg + 1) 10 nm of
        Inl e \<Rightarrow> Inl e
      | Inr (BasedPath, act_name) \<Rightarrow> SearchPath cfg (disk fs) rootDirectory BasedPath 0))"

text \<open>
  The states reached from a formatted volume by calls of \<^verbatim>\<open>Create\<close> that return 1 and whose
  base path resolves to the header sector of a directory.
\<close>

inductive reachable_state :: "config \<Rightarrow> FileSystem \<Rightarrow> bool" for cfg :: config where
  formatted: "Format cfg d0 = Inr fs \<Longrightarrow> reachable_state cfg fs"
| created: "reachable_state cfg fs \<Longrightarrow> Create cfg fs nm sz dirflag = Inr (1, fs') \<Longrightarrow>
            Create_base cfg fs nm = Inr s \<Longrightarrow> is_directory cfg (disk fs) s \<Longrightarrow>
            reachable_state cfg fs'"

text \<open>
  The bitmap consistency the specification states, in its words: the bits marked in the
  persisted free map are those of the sectors of the files reachable from the root, plus
  sectors 0 and 1.
\<close>

definition bitmap_claim :: "config \<Rightarrow> FileSystem \<Rightarrow> bool" where
  "bitmap_claim cfg fs \<longleftrightarrow>
     map_sum id marked (PersistentBitmap_fetch cfg (disk fs) (freeMapFile fs)) =
       Inr ({FreeMapSector, DirectorySector} \<union> reachable_sectors cfg (disk fs))"

text \<open>
  What holds of the persisted state between the operations.  \<open>bm\<close> is the free map stored in
  sector \<open>bmS\<close>, the data block of the free-map file.  Every directory has a readable header
  in a marked sector, and its table, of \<open>NumDirEntries\<close> entries, in a marked data block of
  its own; every reachable entry names a readable header whose sectors are marked; and the
  marked sectors are exactly sectors 0 and 1, the sectors of the two files kept open, and
  the sectors of the reachable files.
\<close>

definition body_of :: "config \<Rightarrow> Disk \<Rightarrow> int \<Rightarrow> int option" where
  "body_of cfg d ds =
     (case OpenFile_new cfg d ds of
        Inl _ \<Rightarrow> None
      | Inr h \<Rightarrow> (case body_sector cfg h of Inr (Some b) \<Rightarrow> Some b | _ \<Rightarrow> None))"

definition hdr_ok :: "config \<Rightarrow> Disk \<Rightarrow> Bitmap \<Rightarrow> int \<Rightarrow> FileHeader \<Rightarrow> bool" where
  "hdr_ok cfg d bm s h \<longleftrightarrow>
     OpenFile_new cfg d s = Inr h \<and> s \<in> marked bm \<and> hdr_sectors h \<subseteq> marked bm \<and>
     (\<forall>x\<in>set (indirect_sectors cfg h). is_hdr (d x))"

definition dir_ok :: "config \<Rightarrow> Disk \<Rightarrow> Bitmap \<Rightarrow> int \<Rightarrow> bool" where
  "dir_ok cfg d bm ds \<longleftrightarrow>
     (\<exists>h b t. hdr_ok cfg d bm ds h \<and> body_sector cfg h = Inr (Some b) \<and> d b = DirSector t \<and>
              length t = NumDirEntries cfg \<and> b \<in> marked bm)"

definition Inv :: "config \<Rightarrow> FileSystem \<Rightarrow> Bitmap \<Rightarrow> int \<Rightarrow> bool" where
  "Inv cfg fs bm bmS \<longleftrightarrow>
     body_sector cfg (freeMapFile fs) = Inr (Some bmS) \<and> disk fs bmS = MapSector bm \<and>
     length bm = NumSectors cfg \<and> bmS \<in> marked bm \<and>
     OpenFile_new cfg (disk fs) DirectorySector = Inr (directoryFile fs) \<and>
     (\<forall>ds. is_directory cfg (disk fs) ds \<longrightarrow> dir_ok cfg (disk fs) bm ds) \<and>
     inj_on (body_of cfg (disk fs)) {ds. is_directory cfg (disk fs) ds} \<and>
     (\<forall>e. reachable cfg (disk fs) e \<longrightarrow> (\<exists>h. hdr_ok cfg (disk fs) bm (sector e) h)) \<and>
     marked bm = {FreeMapSector, DirectorySector} \<union> hdr_sectors (freeMapFile fs) \<union>
                 hdr_sectors (directoryFile fs) \<union> reachable_sectors cfg (disk fs)"

text \<open>
  Volumes of \<open>cfg0\<close>: with a directory \<^verbatim>\<open>//d\<close>; with a file \<^verbatim>\<open>/d/x\<close> of 10 bytes in it; then after
  \<^verbatim>\<open>Remove("//d", false)\<close>.  And with an empty plain file \<^verbatim>\<open>//e\<close>; then after
  \<^verbatim>\<open>Create("/e/x", 10, false)\<close>.
\<close>

definition fs_d :: FileSystem where
  "fs_d = state_of (Create cfg0 fs0 ''//d'' 0 True)"

definition fs_dx :: FileSystem where
  "fs_dx = state_of (Create cfg0 fs_d ''/d/x'' 10 False)"

definition fs_rm :: FileSystem where
  "fs_rm = state_of (Remove 0 cfg0 fs_dx ''//d'' False)"

definition fs_e :: FileSystem where
  "fs_e = state_of (Create cfg0 fs0 ''//e'' 0 False)"

definition fs_ex :: FileSystem where
  "fs_ex = state_of (Create cfg0 fs_e ''/e/x'' 10 False)"

section \<open>Properties of the free-space map and of allocation\<close>

lemma find_clear_Some:
  "find_clear bm = Some i \<Longrightarrow> i < length bm \<and> \<not> bm ! i"
proof (induction bm arbitrary: i)
  case Nil then show ?case by simp
next
  case (Cons b bs)
  then show ?case by (auto split: if_splits option.splits)
qed

lemma find_clear_None:
  "find_clear bm = None \<Longrightarrow> filter Not bm = []"
  by (induction bm) (auto split: if_splits option.splits)

lemma NumClear_set:
  "i < length bm \<Longrightarrow> \<not> bm ! i \<Longrightarrow> Suc (NumClear (bm[i := True])) = NumClear bm"
  unfolding NumClear_def
proof (induction bm arbitrary: i)
  case Nil then show ?case by simp
next
  case (Cons b bs)
  then show ?case by (cases i) auto
qed

lemma FindAndSet_ok:
  assumes "FindAndSet bm = (s, bm')" "0 \<le> s"
  shows "nat s < length bm \<and> \<not> bm ! nat s \<and> bm' = bm[nat s := True] \<and>
         Suc (NumClear bm') = NumClear bm"
  using assms find_clear_Some[of bm] NumClear_set[of _ bm]
  by (auto simp: FindAndSet_def split: option.splits)

lemma FindAndSet_full:
  assumes "FindAndSet bm = (s, bm')" "s < 0"
  shows "NumClear bm = 0 \<and> bm' = bm"
  using assms find_clear_None[of bm]
  by (auto simp: FindAndSet_def NumClear_def split: option.splits)

lemma alloc_sectors_post:
  assumes "alloc_sectors i n ds bm = Inr (ds', bm')"
  shows "length ds' = length ds \<and> length bm' = length bm \<and>
         (n = 0 \<or> i + n \<le> length ds) \<and>
         (\<forall>k. k < i \<or> i + n \<le> k \<longrightarrow> ds' ! k = ds ! k) \<and>
         (\<forall>k. i \<le> k \<and> k < i + n \<longrightarrow>
              0 \<le> ds' ! k \<and> nat (ds' ! k) < length bm \<and> \<not> bm ! nat (ds' ! k) \<and> bm' ! nat (ds' ! k)) \<and>
         (\<forall>j. j < length bm \<and> bm ! j \<longrightarrow> bm' ! j) \<and>
         NumClear bm = NumClear bm' + n"
  using assms
proof (induction n arbitrary: i ds bm)
  case 0
  then show ?case by simp
next
  case (Suc n)
  obtain s bm1 where fs: "FindAndSet bm = (s, bm1)" by (cases "FindAndSet bm")
  from Suc.prems fs have i: "i < length ds" and s: "0 \<le> s"
    and rec: "alloc_sectors (Suc i) n (ds[i := s]) bm1 = Inr (ds', bm')"
    by (auto split: if_splits)
  note F = FindAndSet_ok[OF fs s]
  note IH = Suc.IH[OF rec]
  have len: "length ds' = length ds" "length bm' = length bm" using IH F by auto
  have mono: "\<forall>j. j < length bm \<and> bm ! j \<longrightarrow> bm' ! j"
    using IH F by (auto simp: nth_list_update)
  have cnt: "NumClear bm = NumClear bm' + Suc n" using IH F by linarith
  have bound: "i + Suc n \<le> length ds" using IH i by auto
  have keep: "\<forall>k. k < i \<or> i + Suc n \<le> k \<longrightarrow> ds' ! k = ds ! k"
    using IH by (auto simp: nth_list_update)
  have atI: "ds' ! i = s" using IH i by auto
  have new: "\<forall>k. i \<le> k \<and> k < i + Suc n \<longrightarrow>
              0 \<le> ds' ! k \<and> nat (ds' ! k) < length bm \<and> \<not> bm ! nat (ds' ! k) \<and> bm' ! nat (ds' ! k)"
  proof (intro allI impI)
    fix k assume k: "i \<le> k \<and> k < i + Suc n"
    show "0 \<le> ds' ! k \<and> nat (ds' ! k) < length bm \<and> \<not> bm ! nat (ds' ! k) \<and> bm' ! nat (ds' ! k)"
    proof (cases "k = i")
      case True
      have "bm1 ! nat s" using F by simp
      then have "bm' ! nat s" using IH F by auto
      then show ?thesis using True atI s F by simp
    next
      case False
      then have k': "Suc i \<le> k \<and> k < Suc i + n" using k by auto
      then have P: "0 \<le> ds' ! k \<and> nat (ds' ! k) < length bm1 \<and> \<not> bm1 ! nat (ds' ! k) \<and> bm' ! nat (ds' ! k)"
        using IH by blast
      then have "\<not> bm ! nat (ds' ! k)" using F by (auto simp: nth_list_update split: if_splits)
      then show ?thesis using P F by auto
    qed
  qed
  show ?case using len mono cnt bound keep new by blast
qed

lemma AllocateIndirect_True:
  assumes "AllocateIndirect cfg bm sn c = Inr (True, c', bm')"
  shows "length (dataSectors c') = length (dataSectors c) \<and> length bm' = length bm \<and>
         (\<forall>j. j < length bm \<and> bm ! j \<longrightarrow> bm' ! j) \<and>
         NumClear bm = NumClear bm' + nat sn"
  using assms
  by (auto simp: AllocateIndirect_def split: if_splits sum.splits dest!: alloc_sectors_post)

lemma AllocateIndirect_False:
  assumes "AllocateIndirect cfg bm sn c = Inr (False, c', bm')"
  shows "c' = c \<and> bm' = bm"
  using assms
  by (auto simp: AllocateIndirect_def split: if_splits sum.splits)

lemma alloc_indirect_post:
  assumes "alloc_indirect cfg i n offset h bm = Inr (True, h', bm')"
  shows "length (dataSectors h') = length (dataSectors h) \<and>
         length (indirectTable h') = length (indirectTable h) \<and>
         numBytes h' = numBytes h \<and> numSectors h' = numSectors h \<and>
         length bm' = length bm \<and>
         (n = 0 \<or> (NumDirect cfg + i + n \<le> length (dataSectors h) \<and> i + n \<le> length (indirectTable h))) \<and>
         (\<forall>k. k < NumDirect cfg + i \<or> NumDirect cfg + i + n \<le> k \<longrightarrow> dataSectors h' ! k = dataSectors h ! k) \<and>
         (\<forall>k. k < i \<or> i + n \<le> k \<longrightarrow> indirectTable h' ! k = indirectTable h ! k) \<and>
         (\<forall>k. i \<le> k \<and> k < i + n \<longrightarrow>
              0 \<le> slot cfg h' k \<and> nat (slot cfg h' k) < length bm \<and>
              \<not> bm ! nat (slot cfg h' k) \<and> bm' ! nat (slot cfg h' k) \<and>
              (\<exists>c. indirectTable h' ! k = Some c \<and> length (dataSectors c) = NumSlots cfg)) \<and>
         (\<forall>j. j < length bm \<and> bm ! j \<longrightarrow> bm' ! j)"
  using assms
proof (induction n arbitrary: i offset h bm)
  case 0
  then show ?case by auto
next
  case (Suc n)
  obtain s bm1 where fs: "FindAndSet bm = (s, bm1)" by (cases "FindAndSet bm")
  define sn where "sn = (if int (NumMaxSect cfg) > offset then offset else int (NumMaxSect cfg))"
  define h1 where "h1 = h\<lparr>dataSectors := (dataSectors h)[NumDirect cfg + i := s]\<rparr>"
  from Suc.prems fs have b: "NumDirect cfg + i < length (dataSectors h)" "i < length (indirectTable h)"
    and s: "0 \<le> s"
    by (auto split: if_splits)
  from Suc.prems fs b s obtain c bm2 where
    ai: "AllocateIndirect cfg bm1 sn (hdr_image_new cfg) = Inr (True, c, bm2)" and
    rec: "alloc_indirect cfg (Suc i) n (offset - sn) (h1\<lparr>indirectTable := (indirectTable h1)[i := Some c]\<rparr>) bm2 = Inr (True, h', bm')"
    by (auto simp: Let_def sn_def h1_def split: if_splits sum.splits)
  define h2 where "h2 = h1\<lparr>indirectTable := (indirectTable h1)[i := Some c]\<rparr>"
  note F = FindAndSet_ok[OF fs s]
  note A = AllocateIndirect_True[OF ai]
  note IH = Suc.IH[OF rec[folded h2_def]]
  have h2: "dataSectors h2 = (dataSectors h)[NumDirect cfg + i := s]"
       "indirectTable h2 = (indirectTable h)[i := Some c]"
       "numBytes h2 = numBytes h" "numSectors h2 = numSectors h"
    by (simp_all add: h2_def h1_def)
  have clen: "length (dataSectors c) = NumSlots cfg"
    using A by (simp add: hdr_image_new_def)
  have lens: "length (dataSectors h') = length (dataSectors h)"
       "length (indirectTable h') = length (indirectTable h)"
       "numBytes h' = numBytes h" "numSectors h' = numSectors h" "length bm' = length bm"
    using IH h2 A F by auto
  have bnd: "NumDirect cfg + i + Suc n \<le> length (dataSectors h) \<and> i + Suc n \<le> length (indirectTable h)"
    using IH h2 b by auto
  have mono1: "\<forall>j. j < length bm \<and> bm ! j \<longrightarrow> bm2 ! j"
    using A F by (auto simp: nth_list_update)
  have mono: "\<forall>j. j < length bm \<and> bm ! j \<longrightarrow> bm' ! j"
    using IH mono1 A F by auto
  have keepd: "\<forall>k. k < NumDirect cfg + i \<or> NumDirect cfg + i + Suc n \<le> k \<longrightarrow> dataSectors h' ! k = dataSectors h ! k"
    using IH h2 by (auto simp: nth_list_update)
  have keept: "\<forall>k. k < i \<or> i + Suc n \<le> k \<longrightarrow> indirectTable h' ! k = indirectTable h ! k"
    using IH h2 by (auto simp: nth_list_update)
  have atI: "slot cfg h' i = s" "indirectTable h' ! i = Some c"
    using IH h2 b by (auto simp: slot_def)
  have new: "\<forall>k. i \<le> k \<and> k < i + Suc n \<longrightarrow>
              0 \<le> slot cfg h' k \<and> nat (slot cfg h' k) < length bm \<and>
              \<not> bm ! nat (slot cfg h' k) \<and> bm' ! nat (slot cfg h' k) \<and>
              (\<exists>c. indirectTable h' ! k = Some c \<and> length (dataSectors c) = NumSlots cfg)"
  proof (intro allI impI)
    fix k assume k: "i \<le> k \<and> k < i + Suc n"
    show "0 \<le> slot cfg h' k \<and> nat (slot cfg h' k) < length bm \<and>
              \<not> bm ! nat (slot cfg h' k) \<and> bm' ! nat (slot cfg h' k) \<and>
              (\<exists>c. indirectTable h' ! k = Some c \<and> length (dataSectors c) = NumSlots cfg)"
    proof (cases "k = i")
      case True
      have "bm1 ! nat s" using F by simp
      then have "bm2 ! nat s" using A F by auto
      then have "bm' ! nat s" using IH A F by auto
      then show ?thesis using True atI s F clen by simp
    next
      case False
      then have k': "Suc i \<le> k \<and> k < Suc i + n" using k by auto
      then have P: "0 \<le> slot cfg h' k \<and> nat (slot cfg h' k) < length bm2 \<and>
              \<not> bm2 ! nat (slot cfg h' k) \<and> bm' ! nat (slot cfg h' k) \<and>
              (\<exists>c. indirectTable h' ! k = Some c \<and> length (dataSectors c) = NumSlots cfg)"
        using IH by blast
      have "nat (slot cfg h' k) < length bm" using P A F by auto
      moreover have "\<not> bm ! nat (slot cfg h' k)" using P mono1 calculation by blast
      ultimately show ?thesis using P by auto
    qed
  qed
  show ?case using lens bnd mono keepd keept new by blast
qed

lemma min_split_sum:
  fixes offset m :: int and n :: nat
  assumes "0 \<le> offset" "0 \<le> m"
  shows "min offset m + min (offset - min offset m) (int n * m) = min offset (int (Suc n) * m)"
proof -
  define p where "p = int n * m"
  have p: "0 \<le> p" using assms by (simp add: p_def)
  have eq: "int (Suc n) * m = p + m" by (simp add: p_def algebra_simps)
  have "min offset m + min (offset - min offset m) p = min offset (p + m)"
    using assms p by (simp add: min_def)
  then show ?thesis by (simp only: eq p_def)
qed

lemma alloc_indirect_count:
  assumes "alloc_indirect cfg i n offset h bm = Inr (True, h', bm')" "0 \<le> offset"
  shows "int (NumClear bm) = int (NumClear bm') + int n + min offset (int n * int (NumMaxSect cfg))"
  using assms
proof (induction n arbitrary: i offset h bm)
  case 0
  then show ?case by simp
next
  case (Suc n)
  obtain s bm1 where fs: "FindAndSet bm = (s, bm1)" by (cases "FindAndSet bm")
  define sn where "sn = (if int (NumMaxSect cfg) > offset then offset else int (NumMaxSect cfg))"
  define h1 where "h1 = h\<lparr>dataSectors := (dataSectors h)[NumDirect cfg + i := s]\<rparr>"
  from Suc.prems fs have s: "0 \<le> s"
    by (auto split: if_splits)
  from Suc.prems fs s obtain c bm2 where
    ai: "AllocateIndirect cfg bm1 sn (hdr_image_new cfg) = Inr (True, c, bm2)" and
    rec: "alloc_indirect cfg (Suc i) n (offset - sn) (h1\<lparr>indirectTable := (indirectTable h1)[i := Some c]\<rparr>) bm2 = Inr (True, h', bm')"
    and off: "0 \<le> offset - sn"
    by (auto simp: Let_def sn_def h1_def split: if_splits sum.splits)
  note F = FindAndSet_ok[OF fs s]
  note A = AllocateIndirect_True[OF ai]
  note IH = Suc.IH[OF rec off]
  have sn: "sn = min offset (int (NumMaxSect cfg))" by (auto simp: sn_def min_def)
  have sn0: "0 \<le> sn" using sn Suc.prems(2) by simp
  have "int (NumClear bm) = int (NumClear bm1) + 1" using F by linarith
  also have "\<dots> = int (NumClear bm2) + sn + 1" using A sn0 by simp
  also have "\<dots> = int (NumClear bm') + int n + min (offset - sn) (int n * int (NumMaxSect cfg)) + sn + 1"
    using IH by simp
  also have "\<dots> = int (NumClear bm') + int (Suc n) + min offset (int (Suc n) * int (NumMaxSect cfg))"
    using min_split_sum[of offset "int (NumMaxSect cfg)" n] Suc.prems(2) sn by simp
  finally show ?case .
qed

lemma alloc_indirect_distinct:
  assumes "alloc_indirect cfg i n offset h bm = Inr (True, h', bm')"
  shows "\<forall>k k'. i \<le> k \<and> k < k' \<and> k' < i + n \<longrightarrow> slot cfg h' k \<noteq> slot cfg h' k'"
  using assms
proof (induction n arbitrary: i offset h bm)
  case 0
  then show ?case by auto
next
  case (Suc n)
  obtain s bm1 where fs: "FindAndSet bm = (s, bm1)" by (cases "FindAndSet bm")
  define sn where "sn = (if int (NumMaxSect cfg) > offset then offset else int (NumMaxSect cfg))"
  define h1 where "h1 = h\<lparr>dataSectors := (dataSectors h)[NumDirect cfg + i := s]\<rparr>"
  from Suc.prems fs have b: "NumDirect cfg + i < length (dataSectors h)" "i < length (indirectTable h)"
    and s: "0 \<le> s"
    by (auto split: if_splits)
  from Suc.prems fs b s obtain c bm2 where
    ai: "AllocateIndirect cfg bm1 sn (hdr_image_new cfg) = Inr (True, c, bm2)" and
    rec: "alloc_indirect cfg (Suc i) n (offset - sn) (h1\<lparr>indirectTable := (indirectTable h1)[i := Some c]\<rparr>) bm2 = Inr (True, h', bm')"
    by (auto simp: Let_def sn_def h1_def split: if_splits sum.splits)
  define h2 where "h2 = h1\<lparr>indirectTable := (indirectTable h1)[i := Some c]\<rparr>"
  note F = FindAndSet_ok[OF fs s]
  note A = AllocateIndirect_True[OF ai]
  note IH = Suc.IH[OF rec[folded h2_def]]
  note P = alloc_indirect_post[OF rec[folded h2_def]]
  have h2: "dataSectors h2 = (dataSectors h)[NumDirect cfg + i := s]"
    by (simp add: h2_def h1_def)
  have atI: "slot cfg h' i = s"
    using P h2 b by (auto simp: slot_def)
  have set2: "bm2 ! nat s" using A F by auto
  show ?case
  proof (intro allI impI)
    fix k k' assume kk: "i \<le> k \<and> k < k' \<and> k' < i + Suc n"
    show "slot cfg h' k \<noteq> slot cfg h' k'"
    proof (cases "k = i")
      case True
      have "Suc i \<le> k' \<and> k' < Suc i + n" using kk True by auto
      then have "\<not> bm2 ! nat (slot cfg h' k')" using P by blast
      then show ?thesis using True atI set2 by auto
    next
      case False
      then have "Suc i \<le> k \<and> k < k' \<and> k' < Suc i + n" using kk by auto
      then show ?thesis using IH by blast
    qed
  qed
qed

lemma divRoundUp_ge:
  assumes "0 < s" shows "n \<le> divRoundUp n s * s"
proof -
  have "(- n) div s * s \<le> - n" using assms
    by (metis div_mult_mod_eq le_add_same_cancel1 pos_mod_sign)
  then show ?thesis by (simp add: divRoundUp_def)
qed

lemma divRoundUp_le:
  assumes "0 < s" "n \<le> k * s" shows "divRoundUp n s \<le> k"
proof -
  have "(- k) * s \<le> - n" using assms by simp
  then have "((- k) * s) div s \<le> (- n) div s" using assms(1) by (intro zdiv_mono1) auto
  moreover have "j * s div s = j" for j :: int using assms(1) by simp
  then have "((- k) * s) div s = - k" by (rule meta_spec)
  ultimately show ?thesis by (simp add: divRoundUp_def)
qed

lemma divRoundUp_pos:
  assumes "0 < s" "0 < n" shows "0 < divRoundUp n s"
proof -
  have "(- n) div s < 0" using assms by (simp add: pos_imp_zdiv_neg_iff)
  then show ?thesis by (simp add: divRoundUp_def)
qed

lemma Allocate_post:
  assumes wf: "wf_config cfg"
    and al: "Allocate cfg fm L (FileHeader_new cfg) = Inr (True, h, fm')"
  defines "nS \<equiv> divRoundUp L (int (SectorSize cfg))"
  defines "m \<equiv> indirect_count cfg nS"
  shows "numBytes h = L \<and> numSectors h = nS \<and>
    length (dataSectors h) = NumSlots cfg \<and> length (indirectTable h) = NumIndirect cfg \<and>
    m \<le> NumIndirect cfg \<and>
    (\<forall>k. k < m \<longrightarrow> 0 \<le> slot cfg h k \<and> (\<exists>c. indirectTable h ! k = Some c \<and> length (dataSectors c) = NumSlots cfg)) \<and>
    (\<forall>k. m \<le> k \<and> k < NumIndirect cfg \<longrightarrow> slot cfg h k = -1 \<and> indirectTable h ! k = None) \<and>
    (\<forall>k k'. k < k' \<and> k' < m \<longrightarrow> slot cfg h k \<noteq> slot cfg h k') \<and>
    int (NumClear fm) = int (NumClear fm') + max 0 (min nS (int (NumDirect cfg))) + int m +
        (if nS > int (NumDirect cfg) then min (nS - int (NumDirect cfg)) (int m * int (NumMaxSect cfg)) else 0)"
proof -
  define h1 where "h1 = (FileHeader_new cfg)\<lparr>numBytes := L, numSectors := nS\<rparr>"
  define sectorNeeds where "sectorNeeds = (if nS \<le> int (NumDirect cfg) then nS else int (NumDirect cfg))"
  define offset where "offset = nS - sectorNeeds"
  define m' where "m' = nat (if divRoundUp offset (int (NumMaxSect cfg)) \<le> int (NumIndirect cfg)
                  then divRoundUp offset (int (NumMaxSect cfg)) else int (NumIndirect cfg))"
  have unf: "Allocate cfg fm L (FileHeader_new cfg) =
     (if int (NumClear fm) < nS then Inr (False, h1, fm)
      else case alloc_sectors 0 (nat sectorNeeds) (dataSectors h1) fm of
             Inl e \<Rightarrow> Inl e
           | Inr (ds, bm1) \<Rightarrow>
               if offset > 0 then alloc_indirect cfg 0 m' offset (h1\<lparr>dataSectors := ds\<rparr>) bm1
               else Inr (True, h1\<lparr>dataSectors := ds\<rparr>, bm1))"
    unfolding Allocate_def Let_def nS_def h1_def sectorNeeds_def offset_def m'_def
    by (rule refl)
  from al obtain ds bm1 where
    as: "alloc_sectors 0 (nat sectorNeeds) (dataSectors h1) fm = Inr (ds, bm1)"
    and rest: "(if offset > 0 then alloc_indirect cfg 0 m' offset (h1\<lparr>dataSectors := ds\<rparr>) bm1
               else Inr (True, h1\<lparr>dataSectors := ds\<rparr>, bm1)) = Inr (True, h, fm')"
    unfolding unf by (auto split: if_splits sum.splits)
  define h2 where "h2 = h1\<lparr>dataSectors := ds\<rparr>"
  note S = alloc_sectors_post[OF as]
  have sn: "nat sectorNeeds \<le> NumDirect cfg" by (auto simp: sectorNeeds_def)
  have h1ds: "dataSectors h1 = replicate (NumSlots cfg) (-1)"
    and h1t: "indirectTable h1 = replicate (NumIndirect cfg) None"
    by (simp_all add: h1_def FileHeader_new_def)
  have h2f: "numBytes h2 = L" "numSectors h2 = nS" "length (dataSectors h2) = NumSlots cfg"
      "indirectTable h2 = replicate (NumIndirect cfg) None"
    using S by (simp_all add: h2_def h1_def FileHeader_new_def)
  have h2slot: "\<forall>k. k < NumIndirect cfg \<longrightarrow> slot cfg h2 k = -1"
    using S sn h1ds by (auto simp: h2_def slot_def NumSlots_def)
  have cnt1: "int (NumClear fm) = int (NumClear bm1) + max 0 (min nS (int (NumDirect cfg)))"
    using S by (auto simp: sectorNeeds_def)
  have offpos: "offset > 0 \<longleftrightarrow> nS > int (NumDirect cfg)" by (auto simp: offset_def sectorNeeds_def)
  have ?thesis if False: "\<not> nS > int (NumDirect cfg)"
  proof -
    have m0: "m = 0" using False by (simp add: m_def indirect_count_def)
    from rest False offpos have "h = h2" "fm' = bm1" by (auto simp: h2_def)
    then show ?thesis
      using h2f h2slot cnt1 m0 False by simp
  qed
  moreover have ?thesis if True: "nS > int (NumDirect cfg)"
  proof -
    have off: "0 < offset" "offset = nS - int (NumDirect cfg)"
      using True by (auto simp: offset_def sectorNeeds_def)
    have mdef: "m = m'"
      using True off by (auto simp: m_def m'_def indirect_count_def min_def)
    from rest off have ai: "alloc_indirect cfg 0 m offset h2 bm1 = Inr (True, h, fm')"
      by (simp add: h2_def mdef)
    note P = alloc_indirect_post[OF ai]
    note D = alloc_indirect_distinct[OF ai]
    note C = alloc_indirect_count[OF ai]
    have mle: "m \<le> NumIndirect cfg" by (auto simp: mdef m'_def)
    have a: "numBytes h = L \<and> numSectors h = nS \<and> length (dataSectors h) = NumSlots cfg \<and>
        length (indirectTable h) = NumIndirect cfg"
      using P h2f by simp
    have b: "\<forall>k. k < m \<longrightarrow> 0 \<le> slot cfg h k \<and> (\<exists>c. indirectTable h ! k = Some c \<and> length (dataSectors c) = NumSlots cfg)"
      using P by simp
    have c: "\<forall>k. m \<le> k \<and> k < NumIndirect cfg \<longrightarrow> slot cfg h k = -1 \<and> indirectTable h ! k = None"
    proof (intro allI impI)
      fix k assume k: "m \<le> k \<and> k < NumIndirect cfg"
      have "dataSectors h ! (NumDirect cfg + k) = dataSectors h2 ! (NumDirect cfg + k)"
        using P k by simp
      moreover have "indirectTable h ! k = indirectTable h2 ! k" using P k by simp
      ultimately show "slot cfg h k = -1 \<and> indirectTable h ! k = None"
        using h2slot h2f k by (simp add: slot_def)
    qed
    have d: "\<forall>k k'. k < k' \<and> k' < m \<longrightarrow> slot cfg h k \<noteq> slot cfg h k'" using D by simp
    have e: "int (NumClear fm) = int (NumClear fm') + max 0 (min nS (int (NumDirect cfg))) + int m +
        min offset (int m * int (NumMaxSect cfg))"
      using C off cnt1 by simp
    show ?thesis
      using a b c d e mle True off by simp
  qed
  ultimately show ?thesis by blast
qed

lemma indirect_sectors_eq:
  assumes len: "length (dataSectors h) = NumSlots cfg"
    and mle: "m \<le> NumIndirect cfg"
    and used: "\<forall>k. k < m \<longrightarrow> 0 \<le> slot cfg h k"
    and unused: "\<forall>k. m \<le> k \<and> k < NumIndirect cfg \<longrightarrow> slot cfg h k = -1"
  shows "indirect_sectors cfg h = map (slot cfg h) [0..<m]"
proof -
  have d: "drop (NumDirect cfg) (dataSectors h) = map (slot cfg h) [0..<NumIndirect cfg]"
    using len by (auto intro!: nth_equalityI simp: slot_def NumSlots_def)
  have u: "[0..<NumIndirect cfg] = [0..<m] @ [m..<NumIndirect cfg]"
    using mle by (metis le_add_diff_inverse upt_add_eq_append zero_le)
  have f1: "filter (\<lambda>s. s \<noteq> -1) (map (slot cfg h) [0..<m]) = map (slot cfg h) [0..<m]"
    using used by (auto simp: filter_id_conv)
  have f2: "filter (\<lambda>s. s \<noteq> -1) (map (slot cfg h) [m..<NumIndirect cfg]) = []"
    using unused by (auto simp: filter_empty_conv)
  show ?thesis
    unfolding indirect_sectors_def d by (subst u) (simp only: map_append filter_append f1 f2 append_Nil2)
qed

lemma fetch_indirect_keeps:
  assumes "fetch_indirect cfg dsk i n h = Inr h'"
  shows "dataSectors h' = dataSectors h \<and> numBytes h' = numBytes h \<and> numSectors h' = numSectors h \<and>
         length (indirectTable h') = length (indirectTable h) \<and>
         (\<forall>k. k < i \<longrightarrow> indirectTable h' ! k = indirectTable h ! k) \<and>
         (\<forall>j0 j. i \<le> j0 \<and> j0 < i + n \<and> j0 \<le> j \<and> dataSectors h ! (NumDirect cfg + j0) = -1
              \<longrightarrow> indirectTable h' ! j = indirectTable h ! j)"
  using assms
proof (induction n arbitrary: i h)
  case 0
  then show ?case by auto
next
  case (Suc n)
  show ?case
  proof (cases "dataSectors h ! (NumDirect cfg + i) = -1")
    case True
    then show ?thesis using Suc.prems by simp
  next
    case False
    then obtain c where
      rec: "fetch_indirect cfg dsk (Suc i) n (h\<lparr>indirectTable := (indirectTable h)[i := Some c]\<rparr>) = Inr h'"
      using Suc.prems by (auto split: sum.splits)
    note IH = Suc.IH[OF rec]
    have a: "\<forall>k. k < i \<longrightarrow> indirectTable h' ! k = indirectTable h ! k" using IH by auto
    have b: "\<forall>j0 j. i \<le> j0 \<and> j0 < i + Suc n \<and> j0 \<le> j \<and> dataSectors h ! (NumDirect cfg + j0) = -1
              \<longrightarrow> indirectTable h' ! j = indirectTable h ! j"
    proof (intro allI impI)
      fix j0 j assume j: "i \<le> j0 \<and> j0 < i + Suc n \<and> j0 \<le> j \<and> dataSectors h ! (NumDirect cfg + j0) = -1"
      then have "j0 \<noteq> i" using False by auto
      then have "Suc i \<le> j0 \<and> j0 < Suc i + n \<and> j0 \<le> j" using j by auto
      then have "indirectTable h' ! j = (indirectTable h)[i := Some c] ! j" using IH j by auto
      then show "indirectTable h' ! j = indirectTable h ! j" using j \<open>j0 \<noteq> i\<close> by simp
    qed
    show ?thesis using IH a b by simp
  qed
qed

lemma wf_cfg0: "wf_config cfg0" by (simp add: wf_config_def cfg0_def NumSlots_def)

lemma Allocate_hdr5: "Allocate cfg0 bm0 640 (FileHeader_new cfg0) = Inr (True, hdr5, bm5)"
  by code_simp

lemma Allocate_hdr_big: "Allocate cfg0 bm0 2688 (FileHeader_new cfg0) = Inr (True, hdr_big, bm_big)"
  by code_simp

lemma write_indirect_other:
  "(\<forall>k. i \<le> k \<and> k < i + n \<and> indirectTable h ! k \<noteq> None \<longrightarrow> slot cfg h k \<noteq> x)
     \<Longrightarrow> write_indirect cfg i n h dsk x = dsk x"
proof (induction n arbitrary: i dsk)
  case 0
  then show ?case by simp
next
  case (Suc n)
  have rest: "\<forall>k. Suc i \<le> k \<and> k < Suc i + n \<and> indirectTable h ! k \<noteq> None \<longrightarrow> slot cfg h k \<noteq> x"
    using Suc.prems by auto
  have here: "indirectTable h ! i \<noteq> None \<longrightarrow> slot cfg h i \<noteq> x"
    using Suc.prems by auto
  show ?case
    using Suc.IH[OF rest] here
    by (auto simp: slot_def add.commute split: option.splits)
qed

lemma write_indirect_at:
  assumes "i \<le> k" "k < i + n" "indirectTable h ! k = Some c"
    and "\<forall>k'. k < k' \<and> k' < i + n \<and> indirectTable h ! k' \<noteq> None \<longrightarrow> slot cfg h k' \<noteq> slot cfg h k"
  shows "write_indirect cfg i n h dsk (slot cfg h k) = HdrSector c"
  using assms
proof (induction n arbitrary: i dsk)
  case 0
  then show ?case by simp
next
  case (Suc n)
  show ?case
  proof (cases "k = i")
    case True
    have "\<forall>k'. Suc i \<le> k' \<and> k' < Suc i + n \<and> indirectTable h ! k' \<noteq> None \<longrightarrow> slot cfg h k' \<noteq> slot cfg h k"
      using Suc.prems True by auto
    from write_indirect_other[OF this] show ?thesis
      using True Suc.prems(3) by (simp add: slot_def add.commute)
  next
    case False
    then have "Suc i \<le> k" "k < Suc i + n" using Suc.prems by auto
    moreover have "\<forall>k'. k < k' \<and> k' < Suc i + n \<and> indirectTable h ! k' \<noteq> None \<longrightarrow> slot cfg h k' \<noteq> slot cfg h k"
      using Suc.prems by auto
    ultimately show ?thesis using Suc.IH Suc.prems(3) by simp
  qed
qed

lemma fetch_indirect_restore:
  assumes len: "length (indirectTable h) = NumIndirect cfg"
    and mle: "m \<le> NumIndirect cfg"
    and used: "\<forall>k. k < m \<longrightarrow> slot cfg h k \<noteq> -1 \<and>
                  (\<exists>c. indirectTable h ! k = Some c \<and> read_hdr cfg dsk (slot cfg h k) = Inr c)"
    and unused: "\<forall>k. m \<le> k \<and> k < NumIndirect cfg \<longrightarrow> slot cfg h k = -1 \<and> indirectTable h ! k = None"
  shows "i + n = NumIndirect cfg \<Longrightarrow> dataSectors g = dataSectors h \<Longrightarrow> numBytes g = numBytes h \<Longrightarrow>
         numSectors g = numSectors h \<Longrightarrow>
         indirectTable g = take i (indirectTable h) @ replicate n None \<Longrightarrow>
         fetch_indirect cfg dsk i n g = Inr h"
proof (induction n arbitrary: i g)
  case 0
  then have "indirectTable g = indirectTable h" using len by simp
  then have "g = h" using 0 by (intro FileHeader.equality) simp_all
  then show ?case by simp
next
  case (Suc n)
  have i: "i < NumIndirect cfg" using Suc.prems by simp
  show ?case
  proof (cases "i < m")
    case True
    then obtain c where c: "indirectTable h ! i = Some c" "read_hdr cfg dsk (slot cfg h i) = Inr c"
      and ne: "slot cfg h i \<noteq> -1"
      using used by blast
    define g' where "g' = g\<lparr>indirectTable := (indirectTable g)[i := Some c]\<rparr>"
    have t: "indirectTable g' = take (Suc i) (indirectTable h) @ replicate n None"
      using Suc.prems i len c
      by (simp add: g'_def take_Suc_conv_app_nth list_update_append replicate_Suc[symmetric] del: replicate_Suc)
         (simp add: replicate_Suc)
    have "fetch_indirect cfg dsk (Suc i) n g' = Inr h"
      using Suc.prems t by (intro Suc.IH) (simp_all add: g'_def)
    then show ?thesis
      using ne c Suc.prems by (simp add: slot_def g'_def)
  next
    case False
    then have s: "slot cfg h i = -1" using unused i by simp
    have "indirectTable g = indirectTable h"
    proof (rule nth_equalityI)
      show "length (indirectTable g) = length (indirectTable h)" using Suc.prems len by simp
    next
      fix k assume "k < length (indirectTable g)"
      then have k: "k < NumIndirect cfg" using Suc.prems len by simp
      show "indirectTable g ! k = indirectTable h ! k"
      proof (cases "k < i")
        case True
        then show ?thesis using Suc.prems len i by (simp add: nth_append)
      next
        case False
        then have "indirectTable h ! k = None" using unused \<open>\<not> i < m\<close> k by simp
        then show ?thesis using Suc.prems len i False k
          by (simp add: nth_append del: replicate_Suc)
      qed
    qed
    then have "g = h" using Suc.prems by (intro FileHeader.equality) simp_all
    then show ?thesis using s by (simp add: slot_def)
  qed
qed

lemma sectors_roundtrip:
  assumes lenD: "length (dataSectors h) = NumSlots cfg"
    and len: "length (indirectTable h) = NumIndirect cfg"
    and mle: "m \<le> NumIndirect cfg"
    and used: "\<forall>k. k < m \<longrightarrow> 0 \<le> slot cfg h k \<and>
                  (\<exists>c. indirectTable h ! k = Some c \<and> length (dataSectors c) = NumSlots cfg)"
    and unused: "\<forall>k. m \<le> k \<and> k < NumIndirect cfg \<longrightarrow> slot cfg h k = -1 \<and> indirectTable h ! k = None"
    and dist: "\<forall>k k'. k < k' \<and> k' < m \<longrightarrow> slot cfg h k \<noteq> slot cfg h k'"
    and s: "\<forall>k. k < m \<longrightarrow> slot cfg h k \<noteq> s"
  shows "FetchFrom cfg (WriteBack cfg h s dsk) s (FileHeader_new cfg) = Inr h"
proof -
  define D where "D = WriteBack cfg h s dsk"
  have Ds: "D s = HdrSector (image_of h)"
    unfolding D_def WriteBack_def
  proof (subst write_indirect_other)
    show "\<forall>k. 0 \<le> k \<and> k < 0 + NumIndirect cfg \<and> indirectTable h ! k \<noteq> None \<longrightarrow> slot cfg h k \<noteq> s"
    proof (intro allI impI)
      fix k assume a: "0 \<le> k \<and> k < 0 + NumIndirect cfg \<and> indirectTable h ! k \<noteq> None"
      then have "k < m" using unused by (cases "k < m") auto
      then show "slot cfg h k \<noteq> s" using s by simp
    qed
  qed simp
  have Dk: "D (slot cfg h k) = HdrSector c" if "k < m" "indirectTable h ! k = Some c" for k c
    unfolding D_def WriteBack_def
  proof (rule write_indirect_at)
    show "0 \<le> k" by simp
    show "k < 0 + NumIndirect cfg" using that mle by simp
    show "indirectTable h ! k = Some c" by fact
    show "\<forall>k'. k < k' \<and> k' < 0 + NumIndirect cfg \<and> indirectTable h ! k' \<noteq> None \<longrightarrow> slot cfg h k' \<noteq> slot cfg h k"
    proof (intro allI impI)
      fix k' assume a: "k < k' \<and> k' < 0 + NumIndirect cfg \<and> indirectTable h ! k' \<noteq> None"
      then have "k' < m" using unused by (cases "k' < m") auto
      then show "slot cfg h k' \<noteq> slot cfg h k" using dist a by metis
    qed
  qed
  have rs: "read_hdr cfg D s = Inr (image_of h)"
    using Ds lenD by (simp add: read_hdr_def image_of_def)
  have used': "\<forall>k. k < m \<longrightarrow> slot cfg h k \<noteq> -1 \<and>
                  (\<exists>c. indirectTable h ! k = Some c \<and> read_hdr cfg D (slot cfg h k) = Inr c)"
  proof (intro allI impI)
    fix k assume k: "k < m"
    then obtain c where c: "indirectTable h ! k = Some c" "length (dataSectors c) = NumSlots cfg"
      and nn: "0 \<le> slot cfg h k" using used by blast
    have "read_hdr cfg D (slot cfg h k) = Inr c" using Dk[OF k c(1)] c(2) by (simp add: read_hdr_def)
    then show "slot cfg h k \<noteq> -1 \<and> (\<exists>c. indirectTable h ! k = Some c \<and> read_hdr cfg D (slot cfg h k) = Inr c)"
      using c nn by auto
  qed
  have "fetch_indirect cfg D 0 (NumIndirect cfg)
          ((FileHeader_new cfg)\<lparr>numBytes := numBytes (image_of h), numSectors := numSectors (image_of h),
               dataSectors := dataSectors (image_of h)\<rparr>) = Inr h"
    by (rule fetch_indirect_restore[OF len mle used' unused])
       (simp_all add: image_of_def FileHeader_new_def)
  then show ?thesis
    unfolding D_def[symmetric] FetchFrom_def rs by simp
qed

section \<open>Properties of paths, directories and the facade\<close>

lemma scan_mark_Some:
  "scan_mark cs i m = Some k \<Longrightarrow> (m = Some k \<and> CHR ''/'' \<notin> set cs) \<or>
     (i \<le> k \<and> k < i + length cs \<and> cs ! (k - i) = CHR ''/'' \<and> CHR ''/'' \<notin> set (drop (Suc (k - i)) cs))"
proof (induction cs arbitrary: i m)
  case Nil
  then show ?case by simp
next
  case (Cons c cs)
  from Cons.prems have r: "scan_mark cs (Suc i) (if c = CHR ''/'' then Some i else m) = Some k" by simp
  from Cons.IH[OF r] show ?case
  proof
    assume a: "(if c = CHR ''/'' then Some i else m) = Some k \<and> CHR ''/'' \<notin> set cs"
    show ?thesis
    proof (cases "c = CHR ''/''")
      case True
      then have "k = i" using a by simp
      then show ?thesis using a True by simp
    next
      case False
      then show ?thesis using a by simp
    qed
  next
    assume a: "Suc i \<le> k \<and> k < Suc i + length cs \<and> cs ! (k - Suc i) = CHR ''/'' \<and>
               CHR ''/'' \<notin> set (drop (Suc (k - Suc i)) cs)"
    have "k - i = Suc (k - Suc i)" using a by linarith
    then show ?thesis using a by simp
  qed
qed

lemma ExtractBasePath_leaf:
  assumes "ExtractBasePath bc nc path = Inr (base, leaf)"
  shows "leaf \<noteq> [] \<and> hd leaf = CHR ''/'' \<and> CHR ''/'' \<notin> set (tl leaf) \<and> base @ leaf = path"
proof -
  from assms obtain mark where m: "scan_mark path 0 None = Some mark"
    and b: "base = take mark path" and l: "leaf = drop mark path"
    by (auto simp: ExtractBasePath_def split: option.splits if_splits)
  from scan_mark_Some[OF m] have k: "mark < length path" "path ! mark = CHR ''/''"
    "CHR ''/'' \<notin> set (drop (Suc mark) path)" by auto
  have "leaf = path ! mark # drop (Suc mark) path"
    using k(1) l Cons_nth_drop_Suc[of mark path] by simp
  moreover have "base @ leaf = path" using b l by simp
  ultimately show ?thesis using k by simp
qed

lemma slash_names_new: "slash_names (Directory_new n)"
  by (simp add: slash_names_def Directory_new_def list_all_iff)

lemma slash_names_append: "slash_names (a @ b) \<longleftrightarrow> slash_names a \<and> slash_names b"
  by (simp add: slash_names_def)

lemma slash_names_take: "slash_names t \<Longrightarrow> slash_names (take n t)"
  by (auto simp: slash_names_def list_all_iff dest: in_set_takeD)

lemma slash_names_drop: "slash_names t \<Longrightarrow> slash_names (drop n t)"
  by (auto simp: slash_names_def list_all_iff dest: in_set_dropD)

lemma slash_names_update:
  "slash_names t \<Longrightarrow> (inUse e \<longrightarrow> name e \<noteq> [] \<and> hd (name e) = CHR ''/'') \<Longrightarrow> slash_names (t[i := e])"
  by (auto simp: slash_names_def list_all_iff dest!: subsetD[OF set_update_subset_insert])

lemma Directory_FetchFrom_slash:
  assumes "slash_disk d" "slash_names table" "Directory_FetchFrom cfg d file table = Inr t"
  shows "slash_names t"
proof -
  have *: "slash_names x" if "d s = DirSector x" for s x
  proof -
    have "case d s of DirSector t \<Rightarrow> slash_names t | _ \<Rightarrow> True"
      using assms(1) by (simp add: slash_disk_def)
    then show ?thesis using that by simp
  qed
  show ?thesis
    using assms(2,3) *
    by (auto simp: Directory_FetchFrom_def slash_names_append slash_names_take slash_names_drop
        split: sum.splits option.splits sector_data.splits)
qed

lemma Add_slash:
  assumes "slash_names table" "leaf \<noteq> []" "hd leaf = CHR ''/''" "0 < FileNameMaxLen cfg"
  shows "slash_names (snd (Add cfg table leaf s dir))"
  using assms
  by (auto simp: Add_def slash_names_update split: option.splits)

lemma Add_entry:
  assumes "Add cfg table leaf s dir = (True, table')"
  shows "\<exists>i < length table. \<not> inUse (table ! i) \<and>
           table' = table[i := \<lparr>inUse = True, sector = s, name = take (FileNameMaxLen cfg) leaf, isDir = dir\<rparr>]"
  using assms
  by (auto simp: Add_def find_Some_iff split: option.splits if_splits)

lemma Remove_slash:
  "slash_names table \<Longrightarrow> slash_names (snd (Directory_Remove cfg table nm))"
  by (auto simp: Directory_Remove_def Let_def slash_names_update)

lemma write_indirect_slash:
  "slash_disk d \<Longrightarrow> slash_disk (write_indirect cfg i n h d)"
proof (induction n arbitrary: i d)
  case 0
  then show ?case by simp
next
  case (Suc n)
  have "slash_disk (case indirectTable h ! i of None \<Rightarrow> d
          | Some c \<Rightarrow> d(dataSectors h ! (i + NumDirect cfg) := HdrSector c))"
    using Suc.prems by (auto simp: slash_disk_def split: option.splits)
  from Suc.IH[OF this] show ?case by simp
qed

lemma WriteBack_slash: "slash_disk d \<Longrightarrow> slash_disk (WriteBack cfg h s d)"
  unfolding WriteBack_def by (rule write_indirect_slash) (auto simp: slash_disk_def)

lemma Directory_WriteBack_slash:
  "slash_disk d \<Longrightarrow> slash_names t \<Longrightarrow> Directory_WriteBack cfg d file t = Inr d' \<Longrightarrow> slash_disk d'"
  by (auto simp: Directory_WriteBack_def slash_disk_def split: sum.splits option.splits)

lemma PersistentBitmap_WriteBack_slash:
  "slash_disk d \<Longrightarrow> PersistentBitmap_WriteBack cfg d file bm = Inr d' \<Longrightarrow> slash_disk d'"
  by (auto simp: PersistentBitmap_WriteBack_def slash_disk_def split: sum.splits option.splits)

lemma Find_bare:
  assumes "slash_names table" "0 < FileNameMaxLen cfg" "bare = [] \<or> hd bare \<noteq> CHR ''/''"
  shows "Find cfg table bare = -1"
proof -
  have "\<not> (inUse (table ! i) \<and> strncmp_eq (FileNameMaxLen cfg) (name (table ! i)) bare)"
    if "i < length table" for i
  proof
    assume a: "inUse (table ! i) \<and> strncmp_eq (FileNameMaxLen cfg) (name (table ! i)) bare"
    have "table ! i \<in> set table" using that by simp
    then have n: "name (table ! i) \<noteq> []" "hd (name (table ! i)) = CHR ''/''"
      using assms(1) a by (auto simp: slash_names_def list_all_iff)
    from a have "take (FileNameMaxLen cfg) (name (table ! i)) = take (FileNameMaxLen cfg) bare"
      by (simp add: strncmp_eq_def)
    then have "take 1 (take (FileNameMaxLen cfg) (name (table ! i))) = take 1 (take (FileNameMaxLen cfg) bare)"
      by simp
    then have "take 1 (name (table ! i)) = take 1 bare" using assms(2) by (simp add: min_def)
    then show False using n assms(3) by (cases "name (table ! i)"; cases bare) auto
  qed
  then have "find (\<lambda>i. inUse (table ! i) \<and> strncmp_eq (FileNameMaxLen cfg) (name (table ! i)) bare)
               [0..<length table] = None"
    by (auto simp: find_None_iff)
  then show ?thesis by (simp add: Find_def FindIndex_def)
qed

lemma bindE:
  assumes "(case x of Inl e \<Rightarrow> Inl e | Inr v \<Rightarrow> f v) = Inr y"
  obtains v where "x = Inr v" "f v = Inr y"
  using assms by (cases x) auto

lemma prodE2:
  assumes "(case p of (a, b) \<Rightarrow> f a b) = Inr y"
  obtains a b where "p = (a, b)" "f a b = Inr y"
  using assms by (cases p) auto

lemma if_failE:
  assumes "(if b then Inr (v, fs) else X) = Inr (r, fs')" "fs' \<noteq> fs"
  obtains "\<not> b" "X = Inr (r, fs')"
  using assms by (cases b) auto

lemma Create_success:
  assumes c: "Create cfg fs nm initialSize dir = Inr (r, fs')" and ne: "fs' \<noteq> fs"
  obtains rootDirectory BasedPath act_name s targetFile targetDirectory freeMap0 hs freeMap1
      targetDirectory' hdr freeMap d2 d3 where
    "Directory_FetchFrom cfg (disk fs) (directoryFile fs) (Directory_new (NumDirEntries cfg)) = Inr rootDirectory"
    "ExtractBasePath (MAX_PATH_LEN cfg + 1) 10 nm = Inr (BasedPath, act_name)"
    "SearchPath cfg (disk fs) rootDirectory BasedPath 0 = Inr s" "s \<noteq> -1"
    "OpenFile_new cfg (disk fs) s = Inr targetFile"
    "Directory_FetchFrom cfg (disk fs) targetFile (Directory_new (NumDirEntries cfg)) = Inr targetDirectory"
    "Find cfg targetDirectory act_name = -1"
    "PersistentBitmap_fetch cfg (disk fs) (freeMapFile fs) = Inr freeMap0"
    "FindAndSet freeMap0 = (hs, freeMap1)" "hs \<noteq> -1"
    "Add cfg targetDirectory act_name hs dir = (True, targetDirectory')"
    "Allocate cfg freeMap1 (if dir then DirectoryFileSize cfg else initialSize) (FileHeader_new cfg)
       = Inr (True, hdr, freeMap)"
    "Directory_WriteBack cfg (WriteBack cfg hdr hs (disk fs)) targetFile targetDirectory' = Inr d2"
    "PersistentBitmap_WriteBack cfg d2 (freeMapFile fs) freeMap = Inr d3"
    "(if dir then
            (case OpenFile_new cfg d3 hs of
               Inl e \<Rightarrow> Inl e
             | Inr newFile \<Rightarrow>
                 (case Directory_WriteBack cfg d3 newFile (Directory_new (NumDirEntries cfg)) of
                    Inl e \<Rightarrow> Inl e
                  | Inr d4 \<Rightarrow> Inr (1, fs\<lparr>disk := d4\<rparr>)))
          else Inr (1, fs\<lparr>disk := d3\<rparr>)) = Inr (r, fs')"
  using c unfolding Create_def Let_def
  apply (elim bindE prodE2 if_failE[OF _ ne])
  apply (simp only: not_not)
  apply (rule that, assumption+)
  done

lemma Create_slash:
  assumes n: "0 < FileNameMaxLen cfg" and d: "slash_disk (disk fs)"
    and c: "Create cfg fs nm initialSize dir = Inr (r, fs')"
  shows "slash_disk (disk fs')"
proof (cases "fs' = fs")
  case True
  then show ?thesis using d by simp
next
  case False
  show ?thesis
  proof (rule Create_success[OF c False])
    fix BasedPath act_name targetFile targetDirectory hs targetDirectory' hdr freeMap d2 d3
    assume e: "ExtractBasePath (MAX_PATH_LEN cfg + 1) 10 nm = Inr (BasedPath, act_name)" and
    t: "Directory_FetchFrom cfg (disk fs) targetFile (Directory_new (NumDirEntries cfg)) = Inr targetDirectory" and
    a: "Add cfg targetDirectory act_name hs dir = (True, targetDirectory')" and
    w2: "Directory_WriteBack cfg (WriteBack cfg hdr hs (disk fs)) targetFile targetDirectory' = Inr d2" and
    w3: "PersistentBitmap_WriteBack cfg d2 (freeMapFile fs) freeMap = Inr d3" and
    fin: "(if dir then
            (case OpenFile_new cfg d3 hs of
               Inl e \<Rightarrow> Inl e
             | Inr newFile \<Rightarrow>
                 (case Directory_WriteBack cfg d3 newFile (Directory_new (NumDirEntries cfg)) of
                    Inl e \<Rightarrow> Inl e
                  | Inr d4 \<Rightarrow> Inr (1, fs\<lparr>disk := d4\<rparr>)))
          else Inr (1, fs\<lparr>disk := d3\<rparr>)) = Inr (r, fs')"
  note L = ExtractBasePath_leaf[OF e]
  have td: "slash_names targetDirectory"
    using Directory_FetchFrom_slash[OF d slash_names_new t] .
  have td': "slash_names targetDirectory'"
    using Add_slash[OF td _ _ n, of act_name hs dir] L a by simp
  have s2: "slash_disk d2"
    using Directory_WriteBack_slash[OF WriteBack_slash[OF d] td' w2] .
  have s3: "slash_disk d3" using PersistentBitmap_WriteBack_slash[OF s2 w3] .
  show ?thesis
  proof (cases dir)
    case False
    then show ?thesis using fin s3 by auto
  next
    case True
    with fin obtain newFile d4 where
      "Directory_WriteBack cfg d3 newFile (Directory_new (NumDirEntries cfg)) = Inr d4" "fs' = fs\<lparr>disk := d4\<rparr>"
      by (auto split: sum.splits)
    then show ?thesis using Directory_WriteBack_slash[OF s3 slash_names_new] by simp
  qed
  qed
qed

lemma SearchPath_component:
  assumes "2 \<le> length nm" "offset < length nm" "nm ! offset = CHR ''/''"
  shows "case next_slash nm offset of
           None \<Rightarrow>
             SearchPath cfg d table nm offset =
               (if FileNameMaxLen cfg < length nm - offset then Inl BufferOverflow
                else Inr (Find cfg table (CHR ''/'' # drop (Suc offset) nm)))
         | Some i \<Rightarrow>
             i + offset < length nm \<and> nm ! (i + offset) = CHR ''/'' \<and>
             SearchPath cfg d table nm offset =
               (if FileNameMaxLen cfg < i then Inl BufferOverflow
                else
                  let s = Find cfg table (CHR ''/'' # take (i - 1) (drop (Suc offset) nm))
                  in if s = -1 then Inr s
                     else
                       (case OpenFile_new cfg d s of
                          Inl e \<Rightarrow> Inl e
                        | Inr dir \<Rightarrow>
                            (case Directory_FetchFrom cfg d dir
                                    (Directory_new (nat (DirectoryFileSize cfg))) of
                               Inl e \<Rightarrow> Inl e
                             | Inr directory \<Rightarrow> SearchPath cfg d directory nm (i + offset))))"
proof (cases "next_slash nm offset")
  case None
  have ne: "nm \<noteq> []" "length nm \<noteq> Suc 0" using assms by auto
  have "drop offset nm = CHR ''/'' # drop (Suc offset) nm"
    using assms Cons_nth_drop_Suc[of offset nm] by simp
  moreover have "Suc (length nm - Suc offset) = length nm - offset" using assms by arith
  ultimately show ?thesis using None assms ne by (subst SearchPath.simps) simp
next
  case (Some i)
  have ne: "nm \<noteq> []" "length nm \<noteq> Suc 0" using assms by auto
  have b: "1 \<le> i" "i + offset < length nm" using next_slash_bounds[OF Some] by auto
  have sl: "nm ! (i + offset) = CHR ''/''"
    using Some by (auto simp: next_slash_def find_Some_iff)
  have "drop offset nm = CHR ''/'' # drop (Suc offset) nm"
    using assms Cons_nth_drop_Suc[of offset nm] by simp
  then have "take i (drop offset nm) = CHR ''/'' # take (i - 1) (drop (Suc offset) nm)"
    using b by (cases i) simp_all
  then show ?thesis using Some assms b sl ne by (subst SearchPath.simps) simp
qed

lemma if_InlE:
  assumes "(if b then Inl e else X) = Inr y"
  obtains "\<not> b" "X = Inr y"
  using assms by (cases b) auto

lemma Format_success:
  assumes "Format cfg d0 = Inr fs"
  obtains fm0 fm1 mapHdr fm2 dirHdr freeMap mapFile dirFile d3 d4 where
    "Mark (Bitmap_new (NumSectors cfg)) FreeMapSector = Inr fm0"
    "Mark fm0 DirectorySector = Inr fm1"
    "Allocate cfg fm1 (FreeMapFileSize cfg) (FileHeader_new cfg) = Inr (True, mapHdr, fm2)"
    "Allocate cfg fm2 (DirectoryFileSize cfg) (FileHeader_new cfg) = Inr (True, dirHdr, freeMap)"
    "OpenFile_new cfg (WriteBack cfg dirHdr DirectorySector (WriteBack cfg mapHdr FreeMapSector d0))
       FreeMapSector = Inr mapFile"
    "OpenFile_new cfg (WriteBack cfg dirHdr DirectorySector (WriteBack cfg mapHdr FreeMapSector d0))
       DirectorySector = Inr dirFile"
    "PersistentBitmap_WriteBack cfg
       (WriteBack cfg dirHdr DirectorySector (WriteBack cfg mapHdr FreeMapSector d0))
       mapFile freeMap = Inr d3"
    "Directory_WriteBack cfg d3 dirFile (Directory_new (NumDirEntries cfg)) = Inr d4"
    "fs = \<lparr>disk = d4, freeMapFile = mapFile, directoryFile = dirFile\<rparr>"
  using assms unfolding Format_def Let_def
  apply (elim bindE prodE2 if_InlE)
  apply (simp only: not_not sum.inject)
  done

lemma Format_slash:
  assumes "slash_disk d0" "Format cfg d0 = Inr fs"
  shows "slash_disk (disk fs)"
proof (rule Format_success[OF assms(2)])
  fix mapHdr dirHdr freeMap mapFile dirFile d3 d4
  assume w3: "PersistentBitmap_WriteBack cfg
       (WriteBack cfg dirHdr DirectorySector (WriteBack cfg mapHdr FreeMapSector d0))
       mapFile freeMap = Inr d3"
    and w4: "Directory_WriteBack cfg d3 dirFile (Directory_new (NumDirEntries cfg)) = Inr d4"
    and fs: "fs = \<lparr>disk = d4, freeMapFile = mapFile, directoryFile = dirFile\<rparr>"
  have "slash_disk d3"
    using PersistentBitmap_WriteBack_slash[OF WriteBack_slash[OF WriteBack_slash[OF assms(1)]] w3] .
  then show ?thesis using Directory_WriteBack_slash[OF _ slash_names_new w4] fs by simp
qed

lemma slash_empty_disk: "slash_disk empty_disk"
  by (simp add: slash_disk_def empty_disk_def)

lemma Format_fs0: "Format cfg0 empty_disk = Inr fs0"
proof -
  have "\<not> isl (Format cfg0 empty_disk)" by code_simp
  then show ?thesis unfolding fs0_def by (cases "Format cfg0 empty_disk") auto
qed

lemma Create_fs_a: "Create cfg0 fs0 ''//a'' 200 False = Inr (1, fs_a)"
proof -
  have "result_of (Create cfg0 fs0 ''//a'' 200 False) = Inr 1" by code_simp
  then show ?thesis unfolding fs_a_def state_of_def result_of_def
    by (cases "Create cfg0 fs0 ''//a'' 200 False") auto
qed

section \<open>The free map follows the files\<close>

lemma marked_iff: "x \<in> marked bm \<longleftrightarrow> 0 \<le> x \<and> nat x < length bm \<and> bm ! nat x"
proof
  assume "x \<in> marked bm"
  then show "0 \<le> x \<and> nat x < length bm \<and> bm ! nat x" by (auto simp: marked_def)
next
  assume a: "0 \<le> x \<and> nat x < length bm \<and> bm ! nat x"
  then have "x = int (nat x)" by simp
  then show "x \<in> marked bm" unfolding marked_def using a by blast
qed

lemma marked_set_bit: "i < length bm \<Longrightarrow> marked (bm[i := True]) = insert (int i) (marked bm)"
proof (intro set_eqI iffI)
  fix x assume i: "i < length bm" and "x \<in> marked (bm[i := True])"
  then have x: "0 \<le> x" "nat x < length bm" "bm[i := True] ! nat x" by (auto simp: marked_iff)
  show "x \<in> insert (int i) (marked bm)"
  proof (cases "nat x = i")
    case True
    then have "x = int i" using x by simp
    then show ?thesis by simp
  next
    case False
    then show ?thesis using x by (simp add: marked_iff)
  qed
next
  fix x assume i: "i < length bm" and "x \<in> insert (int i) (marked bm)"
  then show "x \<in> marked (bm[i := True])" by (auto simp: marked_iff nth_list_update)
qed

lemma FindAndSet_marked:
  assumes "FindAndSet bm = (s, bm')" "0 \<le> s"
  shows "marked bm' = insert s (marked bm) \<and> s \<notin> marked bm \<and> length bm' = length bm"
proof -
  note F = FindAndSet_ok[OF assms]
  have "marked bm' = insert (int (nat s)) (marked bm)" using F marked_set_bit[of "nat s" bm] by simp
  then show ?thesis using F assms(2) by (simp add: marked_iff)
qed

lemma alloc_sectors_marked:
  assumes "alloc_sectors i n ds bm = Inr (ds', bm')"
  shows "marked bm' = marked bm \<union> {ds' ! k |k. i \<le> k \<and> k < i + n}"
  using assms
proof (induction n arbitrary: i ds bm)
  case 0
  then show ?case by auto
next
  case (Suc n)
  obtain s bm1 where fs: "FindAndSet bm = (s, bm1)" by (cases "FindAndSet bm")
  from Suc.prems fs have i: "i < length ds" and s: "0 \<le> s"
    and rec: "alloc_sectors (Suc i) n (ds[i := s]) bm1 = Inr (ds', bm')"
    by (auto split: if_splits)
  note M = FindAndSet_marked[OF fs s]
  note IH = Suc.IH[OF rec]
  note P = alloc_sectors_post[OF rec]
  have atI: "ds' ! i = s" using P i by auto
  have "{ds' ! k |k. i \<le> k \<and> k < i + Suc n} = insert s {ds' ! k |k. Suc i \<le> k \<and> k < Suc i + n}"
  proof (intro set_eqI iffI)
    fix x assume "x \<in> {ds' ! k |k. i \<le> k \<and> k < i + Suc n}"
    then obtain k where k: "x = ds' ! k" "i \<le> k" "k < i + Suc n" by auto
    show "x \<in> insert s {ds' ! k |k. Suc i \<le> k \<and> k < Suc i + n}"
    proof (cases "k = i")
      case True
      then show ?thesis using k atI by simp
    next
      case False
      then have "Suc i \<le> k \<and> k < Suc i + n" using k by auto
      then show ?thesis using k by auto
    qed
  next
    fix x assume "x \<in> insert s {ds' ! k |k. Suc i \<le> k \<and> k < Suc i + n}"
    then consider "x = s" | k where "x = ds' ! k" "Suc i \<le> k" "k < Suc i + n" by auto
    then show "x \<in> {ds' ! k |k. i \<le> k \<and> k < i + Suc n}"
    proof cases
      case 1
      then have "x = ds' ! i \<and> i \<le> i \<and> i < i + Suc n" using atI by simp
      then show ?thesis by blast
    next
      case 2
      then have "x = ds' ! k \<and> i \<le> k \<and> k < i + Suc n" by simp
      then show ?thesis by blast
    qed
  qed
  then show ?case using IH M by auto
qed

lemma used_slots_set: "set (used_slots ds) = {s \<in> set ds. s \<noteq> -1}"
  by (auto simp: used_slots_def)

lemma AllocateIndirect_marked:
  assumes "AllocateIndirect cfg bm sn (hdr_image_new cfg) = Inr (True, c', bm')"
  shows "marked bm' = marked bm \<union> set (used_slots (dataSectors c')) \<and>
         set (used_slots (dataSectors c')) \<inter> marked bm = {}"
proof -
  from assms obtain ds where
    as: "alloc_sectors 0 (nat sn) (replicate (NumSlots cfg) (-1)) bm = Inr (ds, bm')"
    and c': "dataSectors c' = ds"
    by (auto simp: AllocateIndirect_def hdr_image_new_def split: if_splits sum.splits)
  note P = alloc_sectors_post[OF as]
  note M = alloc_sectors_marked[OF as]
  have len: "length ds = NumSlots cfg" using P by simp
  have "set (used_slots ds) = {ds ! k |k. k < nat sn}"
  proof (intro set_eqI iffI)
    fix x assume "x \<in> set (used_slots ds)"
    then obtain k where k: "k < length ds" "ds ! k = x" "x \<noteq> -1"
      by (auto simp: used_slots_set in_set_conv_nth)
    have "k < nat sn"
    proof (rule ccontr)
      assume "\<not> k < nat sn"
      then have "ds ! k = replicate (NumSlots cfg) (-1) ! k" using P by simp
      then show False using k len by simp
    qed
    then show "x \<in> {ds ! k |k. k < nat sn}" using k by auto
  next
    fix x assume "x \<in> {ds ! k |k. k < nat sn}"
    then obtain k where k: "k < nat sn" "x = ds ! k" by auto
    then have "0 \<le> ds ! k" "k < length ds" using P by auto
    then show "x \<in> set (used_slots ds)" using k by (auto simp: used_slots_set)
  qed
  moreover have "{ds ! k |k. k < nat sn} \<inter> marked bm = {}"
    using P by (auto simp: marked_iff)
  ultimately show ?thesis using M c' by auto
qed

lemma range_Suc: "{i..<i + Suc n} = insert i {Suc i..<Suc i + n}"
  by auto

lemma alloc_sectors_marked':
  assumes "alloc_sectors i n ds bm = Inr (ds', bm')"
  shows "marked bm' = marked bm \<union> (!) ds' ` {i..<i + n}"
proof -
  have "{ds' ! k |k. i \<le> k \<and> k < i + n} = (!) ds' ` {i..<i + n}" by auto
  then show ?thesis using alloc_sectors_marked[OF assms] by simp
qed

lemma alloc_indirect_marked:
  assumes "alloc_indirect cfg i n offset h bm = Inr (True, h', bm')"
  shows "marked bm' = marked bm \<union> slot cfg h' ` {i..<i + n} \<union> (\<Union>k\<in>{i..<i + n}. kid_sectors h' k) \<and>
         (\<Union>k\<in>{i..<i + n}. kid_sectors h' k) \<inter> marked bm = {}"
  using assms
proof (induction n arbitrary: i offset h bm)
  case 0
  then show ?case by simp
next
  case (Suc n)
  obtain s bm1 where fs: "FindAndSet bm = (s, bm1)" by (cases "FindAndSet bm")
  define sn where "sn = (if int (NumMaxSect cfg) > offset then offset else int (NumMaxSect cfg))"
  define h1 where "h1 = h\<lparr>dataSectors := (dataSectors h)[NumDirect cfg + i := s]\<rparr>"
  from Suc.prems fs have b: "NumDirect cfg + i < length (dataSectors h)" "i < length (indirectTable h)"
    and s: "0 \<le> s"
    by (auto split: if_splits)
  from Suc.prems fs b s obtain c bm2 where
    ai: "AllocateIndirect cfg bm1 sn (hdr_image_new cfg) = Inr (True, c, bm2)" and
    rec: "alloc_indirect cfg (Suc i) n (offset - sn) (h1\<lparr>indirectTable := (indirectTable h1)[i := Some c]\<rparr>) bm2 = Inr (True, h', bm')"
    by (auto simp: Let_def sn_def h1_def split: if_splits sum.splits)
  define h2 where "h2 = h1\<lparr>indirectTable := (indirectTable h1)[i := Some c]\<rparr>"
  note M = FindAndSet_marked[OF fs s]
  note A = AllocateIndirect_marked[OF ai]
  note IH = Suc.IH[OF rec[folded h2_def]]
  note P = alloc_indirect_post[OF rec[folded h2_def]]
  have h2: "dataSectors h2 = (dataSectors h)[NumDirect cfg + i := s]"
       "indirectTable h2 = (indirectTable h)[i := Some c]"
    by (simp_all add: h2_def h1_def)
  have atI: "slot cfg h' i = s" "indirectTable h' ! i = Some c"
    using P h2 b by (auto simp: slot_def)
  have kid: "kid_sectors h' i = set (used_slots (dataSectors c))" using atI by (simp add: kid_sectors_def)
  have sub: "marked bm \<subseteq> marked bm2" using M A by auto
  have m: "marked bm' = marked bm \<union> slot cfg h' ` {i..<i + Suc n} \<union> (\<Union>k\<in>{i..<i + Suc n}. kid_sectors h' k)"
    unfolding range_Suc using IH M A atI kid by auto
  have f: "(\<Union>k\<in>{i..<i + Suc n}. kid_sectors h' k) \<inter> marked bm = {}"
    unfolding range_Suc using IH M A kid sub by auto
  show ?case using m f by simp
qed

lemma Allocate_marked:
  assumes wf: "wf_config cfg"
    and al: "Allocate cfg fm L (FileHeader_new cfg) = Inr (True, h, fm')"
  shows "marked fm' = marked fm \<union> hdr_sectors h \<and> hdr_sectors h \<inter> marked fm = {} \<and>
         set (indirect_sectors cfg h) \<subseteq> hdr_sectors h \<and>
         (0 < L \<longrightarrow> ByteToSector cfg h 0 = Inr (dataSectors h ! 0) \<and>
                    dataSectors h ! 0 \<in> hdr_sectors h \<and>
                    dataSectors h ! 0 \<notin> set (indirect_sectors cfg h))"
proof -
  define nS where "nS = divRoundUp L (int (SectorSize cfg))"
  define m where "m = indirect_count cfg nS"
  define h1 where "h1 = (FileHeader_new cfg)\<lparr>numBytes := L, numSectors := nS\<rparr>"
  define sectorNeeds where "sectorNeeds = (if nS \<le> int (NumDirect cfg) then nS else int (NumDirect cfg))"
  define nd where "nd = nat sectorNeeds"
  define offset where "offset = nS - sectorNeeds"
  define m' where "m' = nat (if divRoundUp offset (int (NumMaxSect cfg)) \<le> int (NumIndirect cfg)
                  then divRoundUp offset (int (NumMaxSect cfg)) else int (NumIndirect cfg))"
  note Q = Allocate_post[OF wf al, folded nS_def, folded m_def]
  have unf: "Allocate cfg fm L (FileHeader_new cfg) =
     (if int (NumClear fm) < nS then Inr (False, h1, fm)
      else case alloc_sectors 0 (nat sectorNeeds) (dataSectors h1) fm of
             Inl e \<Rightarrow> Inl e
           | Inr (ds, bm1) \<Rightarrow>
               if offset > 0 then alloc_indirect cfg 0 m' offset (h1\<lparr>dataSectors := ds\<rparr>) bm1
               else Inr (True, h1\<lparr>dataSectors := ds\<rparr>, bm1))"
    unfolding Allocate_def Let_def nS_def h1_def sectorNeeds_def offset_def m'_def
    by (rule refl)
  from al obtain ds bm1 where
    as: "alloc_sectors 0 nd (dataSectors h1) fm = Inr (ds, bm1)"
    and rest: "(if offset > 0 then alloc_indirect cfg 0 m' offset (h1\<lparr>dataSectors := ds\<rparr>) bm1
               else Inr (True, h1\<lparr>dataSectors := ds\<rparr>, bm1)) = Inr (True, h, fm')"
    unfolding unf nd_def by (auto split: if_splits sum.splits)
  define h2 where "h2 = h1\<lparr>dataSectors := ds\<rparr>"
  note S = alloc_sectors_post[OF as]
  note SM = alloc_sectors_marked'[OF as]
  have ndle: "nd \<le> NumDirect cfg" by (auto simp: nd_def sectorNeeds_def)
  have h1ds: "dataSectors h1 = replicate (NumSlots cfg) (-1)"
    by (simp add: h1_def FileHeader_new_def)
  have offpos: "offset > 0 \<longleftrightarrow> nS > int (NumDirect cfg)" by (auto simp: offset_def sectorNeeds_def)
  have mdef: "offset > 0 \<Longrightarrow> m = m'"
    using offpos by (auto simp: m_def m'_def indirect_count_def min_def offset_def sectorNeeds_def)
  have m0: "\<not> offset > 0 \<Longrightarrow> m = 0" using offpos by (simp add: m_def indirect_count_def)
  \<comment> \<open>the direct part of the final header is the one the first loop left\<close>
  have dir: "\<forall>k. k < NumDirect cfg \<longrightarrow> dataSectors h ! k = ds ! k"
    and bmfin: "marked fm' = marked bm1 \<union> slot cfg h ` {0..<m} \<union> (\<Union>k\<in>{0..<m}. kid_sectors h k)"
    and kfresh: "(\<Union>k\<in>{0..<m}. kid_sectors h k) \<inter> marked bm1 = {}"
    and sfresh: "\<forall>k. k < m \<longrightarrow> slot cfg h k \<notin> marked bm1"
  proof -
    show "\<forall>k. k < NumDirect cfg \<longrightarrow> dataSectors h ! k = ds ! k"
    proof (cases "offset > 0")
      case True
      with rest mdef have ai: "alloc_indirect cfg 0 m offset h2 bm1 = Inr (True, h, fm')"
        by (simp add: h2_def)
      from alloc_indirect_post[OF ai] show ?thesis by (simp add: h2_def)
    next
      case False
      with rest show ?thesis by (auto simp: h2_def)
    qed
    show "marked fm' = marked bm1 \<union> slot cfg h ` {0..<m} \<union> (\<Union>k\<in>{0..<m}. kid_sectors h k)"
    proof (cases "offset > 0")
      case True
      with rest mdef have ai: "alloc_indirect cfg 0 m offset h2 bm1 = Inr (True, h, fm')"
        by (simp add: h2_def)
      from alloc_indirect_marked[OF ai] show ?thesis by simp
    next
      case False
      with rest m0 show ?thesis by auto
    qed
    show "(\<Union>k\<in>{0..<m}. kid_sectors h k) \<inter> marked bm1 = {}"
    proof (cases "offset > 0")
      case True
      with rest mdef have ai: "alloc_indirect cfg 0 m offset h2 bm1 = Inr (True, h, fm')"
        by (simp add: h2_def)
      from alloc_indirect_marked[OF ai] show ?thesis by simp
    next
      case False
      with m0 show ?thesis by auto
    qed
    show "\<forall>k. k < m \<longrightarrow> slot cfg h k \<notin> marked bm1"
    proof (cases "offset > 0")
      case True
      with rest mdef have ai: "alloc_indirect cfg 0 m offset h2 bm1 = Inr (True, h, fm')"
        by (simp add: h2_def)
      from alloc_indirect_post[OF ai] show ?thesis by (auto simp: marked_iff)
    next
      case False
      with m0 show ?thesis by auto
    qed
  qed
  have len: "length (dataSectors h) = NumSlots cfg" "length (indirectTable h) = NumIndirect cfg"
    using Q by auto
  have dnew: "\<forall>k. k < nd \<longrightarrow> 0 \<le> ds ! k \<and> ds ! k \<notin> marked fm \<and> ds ! k \<in> marked bm1"
    using S by (auto simp: marked_iff)
  have dold: "\<forall>k. nd \<le> k \<and> k < NumSlots cfg \<longrightarrow> ds ! k = -1"
    using S h1ds by auto
  \<comment> \<open>the sectors the header names\<close>
  have U: "set (used_slots (dataSectors h)) = (!) ds ` {0..<nd} \<union> slot cfg h ` {0..<m}"
  proof (intro set_eqI iffI)
    fix x assume "x \<in> set (used_slots (dataSectors h))"
    then obtain k where k: "k < NumSlots cfg" "dataSectors h ! k = x" "x \<noteq> -1"
      using len by (auto simp: used_slots_set in_set_conv_nth)
    show "x \<in> (!) ds ` {0..<nd} \<union> slot cfg h ` {0..<m}"
    proof (cases "k < NumDirect cfg")
      case True
      then have e: "ds ! k = x" using dir k by simp
      have "k < nd"
      proof (rule ccontr)
        assume "\<not> k < nd"
        then show False using dold k e by auto
      qed
      then show ?thesis using e by auto
    next
      case False
      define j where "j = k - NumDirect cfg"
      have j: "k = NumDirect cfg + j" "j < NumIndirect cfg"
        using False k by (auto simp: j_def NumSlots_def)
      have e: "slot cfg h j = x" using k j by (simp add: slot_def)
      have "j < m"
      proof (rule ccontr)
        assume "\<not> j < m"
        then have "slot cfg h j = -1" using Q j by auto
        then show False using e k by simp
      qed
      then show ?thesis using e by auto
    qed
  next
    fix x assume "x \<in> (!) ds ` {0..<nd} \<union> slot cfg h ` {0..<m}"
    then consider k where "k < nd" "x = ds ! k" | j where "j < m" "x = slot cfg h j" by auto
    then show "x \<in> set (used_slots (dataSectors h))"
    proof cases
      case 1
      then have "dataSectors h ! k = x" "0 \<le> x" "k < length (dataSectors h)"
        using dir dnew ndle len by (auto simp: NumSlots_def)
      then show ?thesis by (auto simp: used_slots_set in_set_conv_nth)
    next
      case 2
      then have "dataSectors h ! (NumDirect cfg + j) = x" "0 \<le> x"
          "NumDirect cfg + j < length (dataSectors h)"
        using Q len by (auto simp: slot_def NumSlots_def)
      then show ?thesis by (auto simp: used_slots_set in_set_conv_nth)
    qed
  qed
  have K: "(\<Union>c\<in>set (indirect_headers h). set (used_slots (dataSectors c))) = (\<Union>k\<in>{0..<m}. kid_sectors h k)"
  proof (intro set_eqI iffI)
    fix x assume "x \<in> (\<Union>c\<in>set (indirect_headers h). set (used_slots (dataSectors c)))"
    then obtain c where c: "Some c \<in> set (indirectTable h)" "x \<in> set (used_slots (dataSectors c))"
      by (auto simp: indirect_headers_def split: option.splits)
    then obtain k where k: "k < NumIndirect cfg" "indirectTable h ! k = Some c"
      using len by (auto simp: in_set_conv_nth)
    have "k < m"
    proof (rule ccontr)
      assume "\<not> k < m"
      then show False using Q k by auto
    qed
    then have "k \<in> {0..<m}" "x \<in> kid_sectors h k" using k c by (simp_all add: kid_sectors_def)
    then show "x \<in> (\<Union>k\<in>{0..<m}. kid_sectors h k)" by blast
  next
    fix x assume "x \<in> (\<Union>k\<in>{0..<m}. kid_sectors h k)"
    then obtain k c where k: "k < m" "indirectTable h ! k = Some c" "x \<in> set (used_slots (dataSectors c))"
      by (auto simp: kid_sectors_def split: option.splits)
    have "m \<le> NumIndirect cfg" using Q by simp
    then have "k < length (indirectTable h)" using k len by simp
    then have "Some c \<in> set (indirectTable h)" using k(2) nth_mem by metis
    then show "x \<in> (\<Union>c\<in>set (indirect_headers h). set (used_slots (dataSectors c)))"
      using k by (auto simp: indirect_headers_def split: option.splits intro!: bexI[where x = "Some c"])
  qed
  have HS: "hdr_sectors h = (!) ds ` {0..<nd} \<union> slot cfg h ` {0..<m} \<union> (\<Union>k\<in>{0..<m}. kid_sectors h k)"
    using U K by (simp add: hdr_sectors_def hdr_sector_list_def)
  have IS: "set (indirect_sectors cfg h) = slot cfg h ` {0..<m}"
    using indirect_sectors_eq[of h cfg m] Q by auto
  have c1: "marked fm' = marked fm \<union> hdr_sectors h" using HS bmfin SM by auto
  have sub: "marked fm \<subseteq> marked bm1" using SM by auto
  have c2: "hdr_sectors h \<inter> marked fm = {}"
    unfolding HS using dnew sfresh kfresh sub by auto
  have c3: "set (indirect_sectors cfg h) \<subseteq> hdr_sectors h" using HS IS by auto
  have c4: "ByteToSector cfg h 0 = Inr (dataSectors h ! 0) \<and>
                    dataSectors h ! 0 \<in> hdr_sectors h \<and>
                    dataSectors h ! 0 \<notin> set (indirect_sectors cfg h)" if L: "0 < L"
  proof -
    have S0: "0 < int (SectorSize cfg)" and D0: "0 < NumDirect cfg" using wf by (simp_all add: wf_config_def)
    have "0 < nS" using divRoundUp_pos[OF S0 L] by (simp add: nS_def)
    then have nd0: "0 < nd" using D0 by (auto simp: nd_def sectorNeeds_def)
    have e: "dataSectors h ! 0 = ds ! 0" using dir D0 by simp
    have b: "ByteToSector cfg h 0 = Inr (dataSectors h ! 0)"
      using D0 len by (simp add: ByteToSector_def c_div_def NumSlots_def)
    have i: "dataSectors h ! 0 \<in> hdr_sectors h" unfolding HS e using nd0 by auto
    have "ds ! 0 \<in> marked bm1" using dnew nd0 by simp
    then have n: "dataSectors h ! 0 \<notin> set (indirect_sectors cfg h)"
      unfolding IS e using sfresh by auto
    show ?thesis using b i n by simp
  qed
  show ?thesis using c1 c2 c3 c4 by blast
qed

lemma Allocate_length:
  assumes wf: "wf_config cfg"
    and al: "Allocate cfg fm L (FileHeader_new cfg) = Inr (True, h, fm')"
  shows "length fm' = length fm"
proof -
  have "marked fm' = marked fm \<union> hdr_sectors h" using Allocate_marked[OF wf al] by simp
  define nS where "nS = divRoundUp L (int (SectorSize cfg))"
  define h1 where "h1 = (FileHeader_new cfg)\<lparr>numBytes := L, numSectors := nS\<rparr>"
  define sectorNeeds where "sectorNeeds = (if nS \<le> int (NumDirect cfg) then nS else int (NumDirect cfg))"
  define offset where "offset = nS - sectorNeeds"
  define m' where "m' = nat (if divRoundUp offset (int (NumMaxSect cfg)) \<le> int (NumIndirect cfg)
                  then divRoundUp offset (int (NumMaxSect cfg)) else int (NumIndirect cfg))"
  have unf: "Allocate cfg fm L (FileHeader_new cfg) =
     (if int (NumClear fm) < nS then Inr (False, h1, fm)
      else case alloc_sectors 0 (nat sectorNeeds) (dataSectors h1) fm of
             Inl e \<Rightarrow> Inl e
           | Inr (ds, bm1) \<Rightarrow>
               if offset > 0 then alloc_indirect cfg 0 m' offset (h1\<lparr>dataSectors := ds\<rparr>) bm1
               else Inr (True, h1\<lparr>dataSectors := ds\<rparr>, bm1))"
    unfolding Allocate_def Let_def nS_def h1_def sectorNeeds_def offset_def m'_def
    by (rule refl)
  from al obtain ds bm1 where
    as: "alloc_sectors 0 (nat sectorNeeds) (dataSectors h1) fm = Inr (ds, bm1)"
    and rest: "(if offset > 0 then alloc_indirect cfg 0 m' offset (h1\<lparr>dataSectors := ds\<rparr>) bm1
               else Inr (True, h1\<lparr>dataSectors := ds\<rparr>, bm1)) = Inr (True, h, fm')"
    unfolding unf by (auto split: if_splits sum.splits)
  have l1: "length bm1 = length fm" using alloc_sectors_post[OF as] by simp
  show ?thesis
  proof (cases "offset > 0")
    case True
    with rest have "alloc_indirect cfg 0 m' offset (h1\<lparr>dataSectors := ds\<rparr>) bm1 = Inr (True, h, fm')"
      by simp
    from alloc_indirect_post[OF this] l1 show ?thesis by simp
  next
    case False
    with rest l1 show ?thesis by simp
  qed
qed

lemma Allocate_indirect_sectors:
  assumes wf: "wf_config cfg"
    and al: "Allocate cfg fm L (FileHeader_new cfg) = Inr (True, h, fm')"
  shows "set (indirect_sectors cfg h) =
         slot cfg h ` {0..<indirect_count cfg (divRoundUp L (int (SectorSize cfg)))}"
  using indirect_sectors_eq[of h cfg "indirect_count cfg (divRoundUp L (int (SectorSize cfg)))"]
    Allocate_post[OF wf al] by auto

lemma Allocate_WriteBack:
  assumes wf: "wf_config cfg"
    and al: "Allocate cfg fm L (FileHeader_new cfg) = Inr (True, h, fm')"
    and hs: "hs \<notin> hdr_sectors h"
  shows "FetchFrom cfg (WriteBack cfg h hs d) hs (FileHeader_new cfg) = Inr h"
    and "\<And>x. x \<noteq> hs \<Longrightarrow> x \<notin> set (indirect_sectors cfg h) \<Longrightarrow> WriteBack cfg h hs d x = d x"
    and "\<And>x. x \<in> set (indirect_sectors cfg h) \<Longrightarrow> is_hdr (WriteBack cfg h hs d x)"
proof -
  define m where "m = indirect_count cfg (divRoundUp L (int (SectorSize cfg)))"
  note Q = Allocate_post[OF wf al, folded m_def]
  note IS = Allocate_indirect_sectors[OF wf al, folded m_def]
  have sub: "set (indirect_sectors cfg h) \<subseteq> hdr_sectors h" using Allocate_marked[OF wf al] by simp
  have s: "\<forall>k. k < m \<longrightarrow> slot cfg h k \<noteq> hs"
  proof (intro allI impI)
    fix k assume "k < m"
    then have "slot cfg h k \<in> set (indirect_sectors cfg h)" unfolding IS by auto
    then show "slot cfg h k \<noteq> hs" using sub hs by auto
  qed
  have lenD: "length (dataSectors h) = NumSlots cfg" and len: "length (indirectTable h) = NumIndirect cfg"
    and mle: "m \<le> NumIndirect cfg"
    and used_slots: "\<forall>k. k < m \<longrightarrow> 0 \<le> slot cfg h k \<and>
                  (\<exists>c. indirectTable h ! k = Some c \<and> length (dataSectors c) = NumSlots cfg)"
    and unused: "\<forall>k. m \<le> k \<and> k < NumIndirect cfg \<longrightarrow> slot cfg h k = -1 \<and> indirectTable h ! k = None"
    and dist: "\<forall>k k'. k < k' \<and> k' < m \<longrightarrow> slot cfg h k \<noteq> slot cfg h k'"
    using Q by blast+
  show "FetchFrom cfg (WriteBack cfg h hs d) hs (FileHeader_new cfg) = Inr h"
    by (rule sectors_roundtrip[OF lenD len mle used_slots unused dist s])
  have live: "\<And>k. k < NumIndirect cfg \<Longrightarrow> indirectTable h ! k \<noteq> None \<Longrightarrow> k < m"
    using unused by (metis not_le_imp_less)
  show "WriteBack cfg h hs d x = d x" if x: "x \<noteq> hs" "x \<notin> set (indirect_sectors cfg h)" for x
  proof -
    have "\<forall>k. 0 \<le> k \<and> k < 0 + NumIndirect cfg \<and> indirectTable h ! k \<noteq> None \<longrightarrow> slot cfg h k \<noteq> x"
    proof (intro allI impI)
      fix k assume "0 \<le> k \<and> k < 0 + NumIndirect cfg \<and> indirectTable h ! k \<noteq> None"
      then have "k < m" using live by simp
      then have "slot cfg h k \<in> set (indirect_sectors cfg h)" unfolding IS by auto
      then show "slot cfg h k \<noteq> x" using x by auto
    qed
    from write_indirect_other[OF this] x show ?thesis by (simp add: WriteBack_def)
  qed
  show "is_hdr (WriteBack cfg h hs d x)" if x: "x \<in> set (indirect_sectors cfg h)" for x
  proof -
    from x obtain k where k: "k < m" "x = slot cfg h k" unfolding IS by auto
    then obtain c where c: "indirectTable h ! k = Some c" using used_slots by blast
    have later: "\<forall>k'. k < k' \<and> k' < 0 + NumIndirect cfg \<and> indirectTable h ! k' \<noteq> None \<longrightarrow>
                   slot cfg h k' \<noteq> slot cfg h k"
    proof (intro allI impI)
      fix k' assume a: "k < k' \<and> k' < 0 + NumIndirect cfg \<and> indirectTable h ! k' \<noteq> None"
      then have "k' < m" using live by simp
      then show "slot cfg h k' \<noteq> slot cfg h k" using dist a by metis
    qed
    have "k < 0 + NumIndirect cfg" using k mle by simp
    have "write_indirect cfg 0 (NumIndirect cfg) h (d(hs := HdrSector (image_of h))) x = HdrSector c"
      using write_indirect_at[OF _ \<open>k < 0 + NumIndirect cfg\<close> c later] k by simp
    then show ?thesis by (simp add: WriteBack_def is_hdr_def)
  qed
qed

lemma indirect_sectors_cong:
  "dataSectors g = dataSectors h \<Longrightarrow> indirect_sectors cfg g = indirect_sectors cfg h"
  by (simp add: indirect_sectors_def)

lemma read_hdr_frame: "d' x = d x \<Longrightarrow> read_hdr cfg d' x = read_hdr cfg d x"
  by (simp add: read_hdr_def)

lemma fetch_indirect_frame:
  assumes "fetch_indirect cfg d i n g = Inr h"
    and "\<forall>x\<in>set (indirect_sectors cfg g). d' x = d x"
    and "length (dataSectors g) = NumSlots cfg" "i + n \<le> NumIndirect cfg"
  shows "fetch_indirect cfg d' i n g = Inr h"
  using assms
proof (induction n arbitrary: i g)
  case 0
  then show ?case by simp
next
  case (Suc n)
  show ?case
  proof (cases "dataSectors g ! (NumDirect cfg + i) = -1")
    case True
    with Suc.prems show ?thesis by simp
  next
    case False
    define x where "x = dataSectors g ! (NumDirect cfg + i)"
    have "i < length (drop (NumDirect cfg) (dataSectors g))"
      using Suc.prems by (simp add: NumSlots_def)
    then have "drop (NumDirect cfg) (dataSectors g) ! i \<in> set (drop (NumDirect cfg) (dataSectors g))"
      by (rule nth_mem)
    moreover have "drop (NumDirect cfg) (dataSectors g) ! i = x"
      using Suc.prems by (simp add: x_def NumSlots_def)
    ultimately have "x \<in> set (indirect_sectors cfg g)"
      using False by (simp add: indirect_sectors_def x_def)
    then have same: "read_hdr cfg d' x = read_hdr cfg d x"
      using Suc.prems(2) read_hdr_frame by blast
    from Suc.prems(1) False obtain c where
      c: "read_hdr cfg d x = Inr c" and
      rec: "fetch_indirect cfg d (Suc i) n (g\<lparr>indirectTable := (indirectTable g)[i := Some c]\<rparr>) = Inr h"
      by (auto simp: x_def split: sum.splits)
    have "fetch_indirect cfg d' (Suc i) n (g\<lparr>indirectTable := (indirectTable g)[i := Some c]\<rparr>) = Inr h"
      by (rule Suc.IH[OF rec]) (use Suc.prems in \<open>simp_all add: indirect_sectors_def\<close>)
    then show ?thesis using False c same by (simp add: x_def)
  qed
qed

lemma FetchFrom_sectors:
  assumes "FetchFrom cfg d s g = Inr h"
  shows "is_hdr (d s) \<and> length (dataSectors h) = NumSlots cfg"
proof -
  from assms obtain img where r: "read_hdr cfg d s = Inr img"
    and f: "fetch_indirect cfg d 0 (NumIndirect cfg)
            (g\<lparr>numBytes := numBytes img, numSectors := numSectors img, dataSectors := dataSectors img\<rparr>) = Inr h"
    by (auto simp: FetchFrom_def split: sum.splits)
  from r have "is_hdr (d s)" "length (dataSectors img) = NumSlots cfg"
    by (auto simp: read_hdr_def is_hdr_def split: sector_data.splits if_splits)
  then show ?thesis using fetch_indirect_keeps[OF f] by simp
qed

lemma FetchFrom_frame:
  assumes f: "FetchFrom cfg d s g = Inr h"
    and s: "d' s = d s"
    and ind: "\<forall>x\<in>set (indirect_sectors cfg h). d' x = d x"
  shows "FetchFrom cfg d' s g = Inr h"
proof -
  from f obtain img where r: "read_hdr cfg d s = Inr img"
    and fi: "fetch_indirect cfg d 0 (NumIndirect cfg)
            (g\<lparr>numBytes := numBytes img, numSectors := numSectors img, dataSectors := dataSectors img\<rparr>) = Inr h"
    by (auto simp: FetchFrom_def split: sum.splits)
  define g1 where "g1 = g\<lparr>numBytes := numBytes img, numSectors := numSectors img, dataSectors := dataSectors img\<rparr>"
  have len: "length (dataSectors g1) = NumSlots cfg"
    using r by (auto simp: g1_def read_hdr_def split: sector_data.splits if_splits)
  have ds: "dataSectors h = dataSectors g1" using fetch_indirect_keeps[OF fi] by (simp add: g1_def)
  have ind': "\<forall>x\<in>set (indirect_sectors cfg g1). d' x = d x"
    using ind indirect_sectors_cong[OF ds] by simp
  have "fetch_indirect cfg d' 0 (NumIndirect cfg) g1 = Inr h"
    by (rule fetch_indirect_frame[OF fi[folded g1_def] ind' len]) simp
  moreover have "read_hdr cfg d' s = Inr img" using r s by (simp add: read_hdr_def)
  ultimately show ?thesis by (simp add: FetchFrom_def g1_def)
qed

lemma indirect_sub: "set (indirect_sectors cfg h) \<subseteq> hdr_sectors h"
proof
  fix x assume "x \<in> set (indirect_sectors cfg h)"
  then have "x \<in> set (drop (NumDirect cfg) (dataSectors h))" "x \<noteq> -1"
    by (auto simp: indirect_sectors_def)
  then have "x \<in> set (dataSectors h)" "x \<noteq> -1" by (auto dest: in_set_dropD)
  then show "x \<in> hdr_sectors h" by (simp add: hdr_sectors_def hdr_sector_list_def used_slots_set)
qed

lemma hdr_ok_frame:
  assumes ok: "hdr_ok cfg d bm x h"
    and fr: "\<forall>y\<in>marked bm. is_hdr (d y) \<longrightarrow> d' y = d y"
    and sub: "marked bm \<subseteq> marked bm'"
  shows "hdr_ok cfg d' bm' x h"
proof -
  from ok have o: "OpenFile_new cfg d x = Inr h" and xm: "x \<in> marked bm"
    and hm: "hdr_sectors h \<subseteq> marked bm" and ty: "\<forall>y\<in>set (indirect_sectors cfg h). is_hdr (d y)"
    by (simp_all add: hdr_ok_def)
  have hx: "is_hdr (d x)" using FetchFrom_sectors[OF o[unfolded OpenFile_new_def]] by simp
  have sx: "d' x = d x" using fr xm hx by simp
  have ind: "\<forall>y\<in>set (indirect_sectors cfg h). d' y = d y"
    using fr ty hm indirect_sub[of cfg h] by blast
  have "OpenFile_new cfg d' x = Inr h"
    unfolding OpenFile_new_def by (rule FetchFrom_frame[OF o[unfolded OpenFile_new_def] sx ind])
  moreover have "\<forall>y\<in>set (indirect_sectors cfg h). is_hdr (d' y)" using ind ty by simp
  ultimately show ?thesis using xm hm sub by (auto simp: hdr_ok_def)
qed

lemma entries_of_dir:
  assumes "OpenFile_new cfg d ds = Inr h" "body_sector cfg h = Inr (Some b)" "d b = DirSector t"
    "length t = NumDirEntries cfg"
  shows "entries_of cfg d ds = filter inUse t"
  using assms by (simp add: entries_of_def OPENDIR_def Directory_FetchFrom_def Directory_new_def)

lemma filter_update_set:
  assumes "i < length t" "\<not> P (t ! i)" "P e"
  shows "set (filter P (t[i := e])) = insert e (set (filter P t))"
proof (intro set_eqI iffI)
  fix x assume "x \<in> set (filter P (t[i := e]))"
  then have "x \<in> set (t[i := e])" "P x" by auto
  then have "x \<in> insert e (set t)" using set_update_subset_insert by fast
  then show "x \<in> insert e (set (filter P t))" using \<open>P x\<close> by auto
next
  fix x assume a: "x \<in> insert e (set (filter P t))"
  show "x \<in> set (filter P (t[i := e]))"
  proof (cases "x = e")
    case True
    then show ?thesis using assms by (auto simp: set_update_memI)
  next
    case False
    with a have x: "x \<in> set t" "P x" by auto
    then obtain j where j: "j < length t" "t ! j = x" by (auto simp: in_set_conv_nth)
    then have "j \<noteq> i" using assms x by auto
    then have "t[i := e] ! j = x" using j by simp
    then have "x \<in> set (t[i := e])" using j by (metis length_list_update nth_mem)
    then show ?thesis using x by simp
  qed
qed

lemma Inv_step:
  fixes d d' :: Disk
  assumes inv: "Inv cfg fs bm bmS" and d: "d = disk fs"
    and sdir: "is_directory cfg d s"
    and hS: "OpenFile_new cfg d s = Inr hS" "body_sector cfg hS = Inr (Some bS)" "d bS = DirSector t"
    and upd: "i < length t" "\<not> inUse (t ! i)" "t' = t[i := enew]"
      "enew = \<lparr>inUse = True, sector = hs, name = n, isDir = dirflag\<rparr>"
    and fresh: "hs \<notin> marked bm" "hdr_sectors hdr \<inter> marked bm = {}"
    and bm': "marked bm' = insert hs (marked bm) \<union> hdr_sectors hdr" "length bm' = length bm"
    and F1: "\<forall>y\<in>marked bm. y \<noteq> bS \<longrightarrow> y \<noteq> bmS \<longrightarrow> d' y = d y"
    and F2: "d' bS = DirSector t'"
    and F3: "d' bmS = MapSector bm'"
    and F4: "OpenFile_new cfg d' hs = Inr hdr" "\<forall>x\<in>set (indirect_sectors cfg hdr). is_hdr (d' x)"
    and F5: "dirflag \<Longrightarrow> \<exists>b. body_sector cfg hdr = Inr (Some b) \<and> b \<in> hdr_sectors hdr \<and>
                d' b = DirSector (Directory_new (NumDirEntries cfg))"
  shows "Inv cfg (fs\<lparr>disk := d'\<rparr>) bm' bmS"
proof -
  from inv have I1: "body_sector cfg (freeMapFile fs) = Inr (Some bmS)"
    and I2: "d bmS = MapSector bm" and I3: "length bm = NumSectors cfg" and I4: "bmS \<in> marked bm"
    and I5: "OpenFile_new cfg d DirectorySector = Inr (directoryFile fs)"
    and I6: "\<And>ds. is_directory cfg d ds \<Longrightarrow> dir_ok cfg d bm ds"
    and I7: "inj_on (body_of cfg d) {ds. is_directory cfg d ds}"
    and I8: "\<And>e. reachable cfg d e \<Longrightarrow> \<exists>h. hdr_ok cfg d bm (sector e) h"
    and I9: "marked bm = {FreeMapSector, DirectorySector} \<union> hdr_sectors (freeMapFile fs) \<union>
                 hdr_sectors (directoryFile fs) \<union> reachable_sectors cfg d"
    unfolding Inv_def d by blast+
  have sub: "marked bm \<subseteq> marked bm'" using bm' by auto
  have fr: "\<forall>y\<in>marked bm. is_hdr (d y) \<longrightarrow> d' y = d y"
  proof (intro ballI impI)
    fix y assume y: "y \<in> marked bm" "is_hdr (d y)"
    then have "y \<noteq> bS" "y \<noteq> bmS" using hS(3) I2 by (auto simp: is_hdr_def)
    then show "d' y = d y" using F1 y by simp
  qed
  note P1 = hdr_ok_frame[OF _ fr sub]
  have enew: "inUse enew" "sector enew = hs" "isDir enew = dirflag" using upd(4) by simp_all
  \<comment> \<open>the directory that receives the entry\<close>
  from I6[OF sdir] obtain h0 b0 t0 where s0: "hdr_ok cfg d bm s h0" "body_sector cfg h0 = Inr (Some b0)"
      "d b0 = DirSector t0" "length t0 = NumDirEntries cfg" "b0 \<in> marked bm"
    unfolding dir_ok_def by blast
  have "h0 = hS" using s0(1) hS(1) by (simp add: hdr_ok_def)
  then have "b0 = bS" using s0(2) hS(2) by simp
  then have "t0 = t" using s0(3) hS(3) by simp
  have okS: "hdr_ok cfg d bm s hS" using s0(1) \<open>h0 = hS\<close> by simp
  have lent: "length t = NumDirEntries cfg" using s0(4) \<open>t0 = t\<close> by simp
  have bSm: "bS \<in> marked bm" using s0(5) \<open>b0 = bS\<close> by simp
  have bodyS: "body_of cfg d s = Some bS" using hS by (simp add: body_of_def)
  \<comment> \<open>what the directories hold afterwards\<close>
  have Eold: "set (entries_of cfg d' ds) = set (entries_of cfg d ds) \<union> (if ds = s then {enew} else {})"
    if ds: "is_directory cfg d ds" for ds
  proof -
    from I6[OF ds] obtain h b t1 where o: "hdr_ok cfg d bm ds h" "body_sector cfg h = Inr (Some b)"
      "d b = DirSector t1" "length t1 = NumDirEntries cfg" "b \<in> marked bm"
      unfolding dir_ok_def by blast
    have od: "OpenFile_new cfg d ds = Inr h" using o(1) by (simp add: hdr_ok_def)
    have od': "OpenFile_new cfg d' ds = Inr h" using P1[OF o(1)] by (simp add: hdr_ok_def)
    have e: "entries_of cfg d ds = filter inUse t1" by (rule entries_of_dir[OF od o(2,3,4)])
    show ?thesis
    proof (cases "ds = s")
      case True
      then have "h = hS" using od hS(1) by simp
      then have "b = bS" using o(2) hS(2) by simp
      then have "t1 = t" using o(3) hS(3) by simp
      have "length t' = NumDirEntries cfg" using upd(3) lent by simp
      from entries_of_dir[OF od' o(2) F2[folded \<open>b = bS\<close>] this]
      have "entries_of cfg d' ds = filter inUse t'" .
      then have "set (entries_of cfg d' ds) = insert enew (set (filter inUse t))"
        using filter_update_set[of i t inUse enew] upd enew by simp
      then show ?thesis using e True \<open>t1 = t\<close> by simp
    next
      case False
      have "body_of cfg d ds = Some b" using od o(2) by (simp add: body_of_def)
      then have "b \<noteq> bS" using bodyS I7 ds sdir False by (auto simp: inj_on_def)
      moreover have "b \<noteq> bmS" using o(3) I2 by auto
      ultimately have "d' b = DirSector t1" using F1 o(5) o(3) by simp
      from entries_of_dir[OF od' o(2) this o(4)] show ?thesis using e False by simp
    qed
  qed
  have Enew: "entries_of cfg d' hs = []" if "dirflag"
  proof -
    from F5[OF that] obtain b where b: "body_sector cfg hdr = Inr (Some b)"
      "d' b = DirSector (Directory_new (NumDirEntries cfg))" by blast
    have "entries_of cfg d' hs = filter inUse (Directory_new (NumDirEntries cfg))"
      by (rule entries_of_dir[OF F4(1) b]) (simp add: Directory_new_def)
    then show ?thesis by (simp add: Directory_new_def)
  qed
  have dirm: "ds \<in> marked bm" if "is_directory cfg d ds" for ds
    using I6[OF that] by (auto simp: dir_ok_def hdr_ok_def)
  have root: "is_directory cfg d DirectorySector" by (simp add: is_directory_def)
  have Rfwd: "reachable cfg d e \<or> e = enew" if "reachable cfg d' e" for e
    using that
  proof (induction rule: reachable.induct)
    case (in_root e)
    then show ?case using Eold[OF root] by (auto intro: reachable.in_root split: if_splits)
  next
    case (in_sub p e)
    from in_sub.IH show ?case
    proof
      assume p: "reachable cfg d p"
      then have "is_directory cfg d (sector p)" using in_sub.hyps(2) by (auto simp: is_directory_def)
      from Eold[OF this] in_sub.hyps(3) p in_sub.hyps(2) show ?thesis
        by (auto intro: reachable.in_sub split: if_splits)
    next
      assume "p = enew"
      then have "dirflag" "sector p = hs" using in_sub.hyps(2) enew by simp_all
      then show ?thesis using Enew in_sub.hyps(3) by simp
    qed
  qed
  have Rold: "reachable cfg d' e" if "reachable cfg d e" for e
    using that
  proof (induction rule: reachable.induct)
    case (in_root e)
    then show ?case using Eold[OF root] by (auto intro: reachable.in_root)
  next
    case (in_sub p e)
    have "is_directory cfg d (sector p)" using in_sub.hyps(1,2) by (auto simp: is_directory_def)
    from Eold[OF this] in_sub.hyps(3) have "e \<in> set (entries_of cfg d' (sector p))" by auto
    then show ?case using in_sub.IH in_sub.hyps(2) by (rule reachable.in_sub[rotated 2])
  qed
  have Rnew: "reachable cfg d' enew"
  proof -
    have m: "enew \<in> set (entries_of cfg d' s)" using Eold[OF sdir] by simp
    from sdir show ?thesis unfolding is_directory_def
    proof
      assume "s = DirectorySector"
      then show ?thesis using m by (auto intro: reachable.in_root)
    next
      assume "\<exists>p. reachable cfg d p \<and> isDir p \<and> sector p = s"
      then obtain p where p: "reachable cfg d p" "isDir p" "sector p = s" by blast
      show ?thesis by (rule reachable.in_sub[OF Rold[OF p(1)] p(2)]) (use m p(3) in simp)
    qed
  qed
  have R: "reachable cfg d' e \<longleftrightarrow> reachable cfg d e \<or> e = enew" for e
    using Rfwd Rold Rnew by blast
  have D: "is_directory cfg d' ds \<longleftrightarrow> is_directory cfg d ds \<or> (dirflag \<and> ds = hs)" for ds
    unfolding is_directory_def R using enew by auto
  \<comment> \<open>the new header\<close>
  have hsm: "hs \<in> marked bm'" and hdm: "hdr_sectors hdr \<subseteq> marked bm'" using bm' by auto
  have okN: "hdr_ok cfg d' bm' hs hdr" using F4 hsm hdm by (simp add: hdr_ok_def)
  \<comment> \<open>the sectors of the files\<close>
  have FSold: "file_sectors cfg d' e = file_sectors cfg d e" if "reachable cfg d e" for e
  proof -
    from I8[OF that] obtain h where h: "hdr_ok cfg d bm (sector e) h" by blast
    from P1[OF h] h show ?thesis by (simp add: file_sectors_def hdr_ok_def)
  qed
  have FSnew: "file_sectors cfg d' enew = insert hs (hdr_sectors hdr)"
    using F4(1) enew by (simp add: file_sectors_def)
  have G: "reachable_sectors cfg d' = reachable_sectors cfg d \<union> insert hs (hdr_sectors hdr)"
  proof -
    have "{e. reachable cfg d' e} = insert enew {e. reachable cfg d e}" using R by auto
    then have "reachable_sectors cfg d' =
        file_sectors cfg d' enew \<union> (\<Union>e\<in>{e. reachable cfg d e}. file_sectors cfg d' e)"
      by (simp add: reachable_sectors_def)
    also have "(\<Union>e\<in>{e. reachable cfg d e}. file_sectors cfg d' e) = reachable_sectors cfg d"
      using FSold by (simp add: reachable_sectors_def)
    finally show ?thesis using FSnew by auto
  qed
  have H: "marked bm' = {FreeMapSector, DirectorySector} \<union> hdr_sectors (freeMapFile fs) \<union>
                 hdr_sectors (directoryFile fs) \<union> reachable_sectors cfg d'"
    unfolding G bm'(1) I9 by auto
  \<comment> \<open>the directories\<close>
  have Dok: "dir_ok cfg d' bm' ds" if ds: "is_directory cfg d' ds" for ds
  proof (cases "is_directory cfg d ds")
    case True
    from I6[OF True] obtain h b t1 where o: "hdr_ok cfg d bm ds h" "body_sector cfg h = Inr (Some b)"
      "d b = DirSector t1" "length t1 = NumDirEntries cfg" "b \<in> marked bm"
      unfolding dir_ok_def by blast
    have od: "OpenFile_new cfg d ds = Inr h" using o(1) by (simp add: hdr_ok_def)
    have bm: "b \<in> marked bm'" using o(5) sub by auto
    show ?thesis
    proof (cases "b = bS")
      case True
      have "length t' = NumDirEntries cfg" using upd(3) lent by simp
      then show ?thesis unfolding dir_ok_def using P1[OF o(1)] o(2) F2 True bm by blast
    next
      case False
      moreover have "b \<noteq> bmS" using o(3) I2 by auto
      ultimately have "d' b = DirSector t1" using F1 o(5) o(3) by simp
      then show ?thesis unfolding dir_ok_def using P1[OF o(1)] o(2) o(4) bm by blast
    qed
  next
    case False
    then have f: "dirflag" "ds = hs" using ds D by auto
    from F5[OF f(1)] obtain b where b: "body_sector cfg hdr = Inr (Some b)" "b \<in> hdr_sectors hdr"
      "d' b = DirSector (Directory_new (NumDirEntries cfg))" by blast
    have "length (Directory_new (NumDirEntries cfg)) = NumDirEntries cfg" by (simp add: Directory_new_def)
    moreover have "b \<in> marked bm'" using b(2) hdm by auto
    ultimately show ?thesis unfolding dir_ok_def using okN b f(2) by blast
  qed
  have Bold: "body_of cfg d' ds = body_of cfg d ds \<and> (\<exists>b. body_of cfg d ds = Some b \<and> b \<in> marked bm)"
    if ds: "is_directory cfg d ds" for ds
  proof -
    from I6[OF ds] obtain h b where o: "hdr_ok cfg d bm ds h" "body_sector cfg h = Inr (Some b)"
      "b \<in> marked bm"
      unfolding dir_ok_def by blast
    from P1[OF o(1)] o show ?thesis by (simp add: body_of_def hdr_ok_def)
  qed
  have Bnew: "\<exists>b. body_of cfg d' hs = Some b \<and> b \<notin> marked bm" if "dirflag"
  proof -
    from F5[OF that] obtain b where b: "body_sector cfg hdr = Inr (Some b)" "b \<in> hdr_sectors hdr"
      by blast
    then have "b \<notin> marked bm" using fresh(2) by auto
    then show ?thesis using b(1) F4(1) by (simp add: body_of_def)
  qed
  have notdir: "\<not> is_directory cfg d hs" using dirm fresh(1) by blast
  have J: "inj_on (body_of cfg d') {ds. is_directory cfg d' ds}"
  proof (rule inj_onI)
    fix x y assume x: "x \<in> {ds. is_directory cfg d' ds}" and y: "y \<in> {ds. is_directory cfg d' ds}"
      and eq: "body_of cfg d' x = body_of cfg d' y"
    show "x = y"
    proof (cases "is_directory cfg d x")
      case xo: True
      show ?thesis
      proof (cases "is_directory cfg d y")
        case True
        then have "body_of cfg d x = body_of cfg d y" using eq Bold xo by simp
        then show ?thesis using I7 xo True by (auto simp: inj_on_def)
      next
        case False
        then have "dirflag" "y = hs" using y D by auto
        then show ?thesis using Bnew Bold[OF xo] eq by auto
      qed
    next
      case xn: False
      then have xh: "dirflag" "x = hs" using x D by auto
      show ?thesis
      proof (cases "is_directory cfg d y")
        case True
        then show ?thesis using Bnew[OF xh(1)] Bold[OF True] eq xh(2) by auto
      next
        case False
        then have "y = hs" using y D by auto
        then show ?thesis using xh by simp
      qed
    qed
  qed
  have K: "\<exists>h. hdr_ok cfg d' bm' (sector e) h" if "reachable cfg d' e" for e
  proof -
    from that R have "reachable cfg d e \<or> e = enew" by simp
    then show ?thesis
    proof
      assume "reachable cfg d e"
      from I8[OF this] obtain h where "hdr_ok cfg d bm (sector e) h" by blast
      from P1[OF this] show ?thesis by blast
    next
      assume "e = enew"
      then show ?thesis using okN enew by auto
    qed
  qed
  have rootH: "OpenFile_new cfg d' DirectorySector = Inr (directoryFile fs)"
  proof -
    from I6[OF root] obtain h where "hdr_ok cfg d bm DirectorySector h" unfolding dir_ok_def by blast
    moreover from this have "h = directoryFile fs" using I5 by (simp add: hdr_ok_def)
    ultimately show ?thesis using P1 by (auto simp: hdr_ok_def)
  qed
  have M: "bmS \<in> marked bm'" "length bm' = NumSectors cfg" using I4 sub bm'(2) I3 by auto
  show ?thesis
    unfolding Inv_def using I1 F3 M rootH Dok J K H by simp
qed

lemma FindAndSet_nonneg: "FindAndSet bm = (s, bm') \<Longrightarrow> s \<noteq> -1 \<Longrightarrow> 0 \<le> s"
  by (auto simp: FindAndSet_def split: option.splits)

lemma Create_Inv:
  assumes wf: "wf_config cfg" and dpos: "0 < DirectoryFileSize cfg"
    and inv: "Inv cfg fs bm bmS"
    and cr: "Create cfg fs nm sz dirflag = Inr (1, fs')"
    and base: "Create_base cfg fs nm = Inr s"
    and sdir: "is_directory cfg (disk fs) s"
  shows "\<exists>bm'. Inv cfg fs' bm' bmS"
proof (cases "fs' = fs")
  case True
  then show ?thesis using inv by blast
next
  case False
  define d where "d = disk fs"
  define N where "N = NumDirEntries cfg"
  from inv have I1: "body_sector cfg (freeMapFile fs) = Inr (Some bmS)"
    and I2: "d bmS = MapSector bm" and I3: "length bm = NumSectors cfg" and I4: "bmS \<in> marked bm"
    and I6: "\<And>ds. is_directory cfg d ds \<Longrightarrow> dir_ok cfg d bm ds"
    unfolding Inv_def d_def by blast+
  show ?thesis
  proof (rule Create_success[OF cr False])
    fix rootDirectory BasedPath act_name s0 targetFile targetDirectory freeMap0 hs freeMap1
      targetDirectory' hdr freeMap d2 d3
    assume c1: "Directory_FetchFrom cfg (disk fs) (directoryFile fs) (Directory_new (NumDirEntries cfg)) = Inr rootDirectory"
      and c2: "ExtractBasePath (MAX_PATH_LEN cfg + 1) 10 nm = Inr (BasedPath, act_name)"
      and c3: "SearchPath cfg (disk fs) rootDirectory BasedPath 0 = Inr s0"
      and c5: "OpenFile_new cfg (disk fs) s0 = Inr targetFile"
      and c6: "Directory_FetchFrom cfg (disk fs) targetFile (Directory_new (NumDirEntries cfg)) = Inr targetDirectory"
      and c8: "PersistentBitmap_fetch cfg (disk fs) (freeMapFile fs) = Inr freeMap0"
      and c9: "FindAndSet freeMap0 = (hs, freeMap1)" and c10: "hs \<noteq> -1"
      and c11: "Add cfg targetDirectory act_name hs dirflag = (True, targetDirectory')"
      and c12: "Allocate cfg freeMap1 (if dirflag then DirectoryFileSize cfg else sz) (FileHeader_new cfg)
                  = Inr (True, hdr, freeMap)"
      and c13: "Directory_WriteBack cfg (WriteBack cfg hdr hs (disk fs)) targetFile targetDirectory' = Inr d2"
      and c14: "PersistentBitmap_WriteBack cfg d2 (freeMapFile fs) freeMap = Inr d3"
      and c15: "(if dirflag then
            (case OpenFile_new cfg d3 hs of
               Inl e \<Rightarrow> Inl e
             | Inr newFile \<Rightarrow>
                 (case Directory_WriteBack cfg d3 newFile (Directory_new (NumDirEntries cfg)) of
                    Inl e \<Rightarrow> Inl e
                  | Inr d4 \<Rightarrow> Inr (1, fs\<lparr>disk := d4\<rparr>)))
          else Inr (1, fs\<lparr>disk := d3\<rparr>)) = Inr (1::int, fs')"
    have "s0 = s" using base c1 c2 c3 by (simp add: Create_base_def)
    \<comment> \<open>the directory that receives the entry\<close>
    have sdir': "is_directory cfg d s" using sdir by (simp add: d_def)
    from I6[OF sdir'] obtain h0 b t where s0: "hdr_ok cfg d bm s h0" "body_sector cfg h0 = Inr (Some b)"
      "d b = DirSector t" "length t = NumDirEntries cfg" "b \<in> marked bm"
      unfolding dir_ok_def by blast
    have tf: "targetFile = h0" using s0(1) c5 \<open>s0 = s\<close> by (simp add: hdr_ok_def d_def)
    have oS: "OpenFile_new cfg d s = Inr targetFile" using c5 \<open>s0 = s\<close> by (simp add: d_def)
    have bodyT: "body_sector cfg targetFile = Inr (Some b)" using s0(2) tf by simp
    have td: "targetDirectory = t"
      using c6 bodyT s0(3,4) by (simp add: Directory_FetchFrom_def Directory_new_def d_def)
    \<comment> \<open>the free map\<close>
    have fm0: "freeMap0 = bm" using c8 I1 I2 I3 by (simp add: PersistentBitmap_fetch_def d_def)
    have hs0: "0 \<le> hs" using FindAndSet_nonneg[OF c9 c10] .
    from FindAndSet_marked[OF c9 hs0] have m1: "marked freeMap1 = insert hs (marked bm)"
      and hsf: "hs \<notin> marked bm" and l1: "length freeMap1 = length bm" using fm0 by simp_all
    note AM = Allocate_marked[OF wf c12]
    have m2: "marked freeMap = insert hs (marked bm) \<union> hdr_sectors hdr" using AM m1 by simp
    have fr1: "hdr_sectors hdr \<inter> insert hs (marked bm) = {}" using AM m1 by simp
    then have fr: "hdr_sectors hdr \<inter> marked bm = {}" and hsh: "hs \<notin> hdr_sectors hdr" by auto
    have l2: "length freeMap = length bm" using Allocate_length[OF wf c12] l1 by simp
    have isub: "set (indirect_sectors cfg hdr) \<subseteq> hdr_sectors hdr" using AM by simp
    \<comment> \<open>the entry\<close>
    define enew where "enew = \<lparr>inUse = True, sector = hs, name = take (FileNameMaxLen cfg) act_name, isDir = dirflag\<rparr>"
    from Add_entry[OF c11] obtain i where i: "i < length t" "\<not> inUse (t ! i)"
      "targetDirectory' = t[i := enew]" using td enew_def by auto
    \<comment> \<open>the writes\<close>
    define d1 where "d1 = WriteBack cfg hdr hs d"
    note WB = Allocate_WriteBack[OF wf c12 hsh, where d = d, folded d1_def]
    have d2: "d2 = d1(b := DirSector targetDirectory')"
      using c13 bodyT by (simp add: Directory_WriteBack_def d1_def d_def)
    have d3: "d3 = d2(bmS := MapSector freeMap)"
      using c14 I1 by (simp add: PersistentBitmap_WriteBack_def)
    have bne: "b \<noteq> bmS" using s0(3) I2 by auto
    have bhs: "b \<noteq> hs" "bmS \<noteq> hs" using s0(5) I4 hsf by auto
    have bind: "b \<notin> set (indirect_sectors cfg hdr)" "bmS \<notin> set (indirect_sectors cfg hdr)"
      using s0(5) I4 fr isub by auto
    have o3: "OpenFile_new cfg d3 hs = Inr hdr"
      unfolding OpenFile_new_def
    proof (rule FetchFrom_frame[OF WB(1)])
      show "d3 hs = d1 hs" using d3 d2 bhs by simp
      show "\<forall>x\<in>set (indirect_sectors cfg hdr). d3 x = d1 x" using d3 d2 bind by auto
    qed
    have G1: "\<forall>y\<in>marked bm. y \<noteq> b \<longrightarrow> y \<noteq> bmS \<longrightarrow> d3 y = d y"
    proof (intro ballI impI)
      fix y assume y: "y \<in> marked bm" "y \<noteq> b" "y \<noteq> bmS"
      then have "y \<noteq> hs" "y \<notin> set (indirect_sectors cfg hdr)" using hsf fr isub by auto
      then have "d1 y = d y" using WB(2) by simp
      then show "d3 y = d y" using d3 d2 y by simp
    qed
    have G2: "d3 b = DirSector targetDirectory'" using d3 d2 bne by simp
    have G3: "d3 bmS = MapSector freeMap" using d3 by simp
    have G4: "\<forall>x\<in>set (indirect_sectors cfg hdr). is_hdr (d3 x)"
    proof
      fix x assume x: "x \<in> set (indirect_sectors cfg hdr)"
      then have "d3 x = d1 x" using d3 d2 bind by auto
      then show "is_hdr (d3 x)" using WB(3)[OF x] by simp
    qed
    show ?thesis
    proof (cases dirflag)
      case False
      then have fs': "fs' = fs\<lparr>disk := d3\<rparr>" using c15 by simp
      have "Inv cfg (fs\<lparr>disk := d3\<rparr>) freeMap bmS"
        by (rule Inv_step[OF inv d_def sdir' oS bodyT s0(3) i(1,2) i(3) enew_def hsf fr m2 l2 G1 G2 G3 o3 G4])
           (use False in simp)
      then show ?thesis using fs' by blast
    next
      case True
      from c15 True o3 obtain d4 where
        w: "Directory_WriteBack cfg d3 hdr (Directory_new (NumDirEntries cfg)) = Inr d4"
        and fs': "fs' = fs\<lparr>disk := d4\<rparr>"
        by (auto split: sum.splits)
      define bN where "bN = dataSectors hdr ! 0"
      have nb: "numBytes hdr = DirectoryFileSize cfg" using Allocate_post[OF wf c12] True by simp
      from AM dpos True have b2s: "ByteToSector cfg hdr 0 = Inr bN" and bNh: "bN \<in> hdr_sectors hdr"
        and bNi: "bN \<notin> set (indirect_sectors cfg hdr)" by (simp_all add: bN_def)
      have bodyN: "body_sector cfg hdr = Inr (Some bN)" using nb dpos b2s by (simp add: body_sector_def)
      have d4: "d4 = d3(bN := DirSector (Directory_new (NumDirEntries cfg)))"
        using w bodyN by (simp add: Directory_WriteBack_def)
      have bNm: "bN \<notin> marked bm" "bN \<noteq> hs" using bNh fr hsh by auto
      then have bNo: "bN \<noteq> b" "bN \<noteq> bmS" using s0(5) I4 by auto
      have o4: "OpenFile_new cfg d4 hs = Inr hdr"
        unfolding OpenFile_new_def
      proof (rule FetchFrom_frame[OF o3[unfolded OpenFile_new_def]])
        show "d4 hs = d3 hs" using d4 bNm by simp
        show "\<forall>x\<in>set (indirect_sectors cfg hdr). d4 x = d3 x" using d4 bNi by auto
      qed
      have H1: "\<forall>y\<in>marked bm. y \<noteq> b \<longrightarrow> y \<noteq> bmS \<longrightarrow> d4 y = d y"
        using G1 d4 bNm by auto
      have H2: "d4 b = DirSector targetDirectory'" using G2 d4 bNo by simp
      have H3: "d4 bmS = MapSector freeMap" using G3 d4 bNo by simp
      have H4: "\<forall>x\<in>set (indirect_sectors cfg hdr). is_hdr (d4 x)" using G4 d4 bNi by auto
      have H5: "\<exists>b. body_sector cfg hdr = Inr (Some b) \<and> b \<in> hdr_sectors hdr \<and>
                d4 b = DirSector (Directory_new (NumDirEntries cfg))"
        using bodyN bNh d4 by auto
      have "Inv cfg (fs\<lparr>disk := d4\<rparr>) freeMap bmS"
        by (rule Inv_step[OF inv d_def sdir' oS bodyT s0(3) i(1,2) i(3) enew_def hsf fr m2 l2 H1 H2 H3 o4 H4 H5])
      then show ?thesis using fs' by blast
    qed
  qed
qed

lemma marked_new: "marked (Bitmap_new n) = {}"
  by (auto simp: marked_iff Bitmap_new_def)

lemma Mark_marked:
  assumes "Mark bm w = Inr bm'"
  shows "marked bm' = insert w (marked bm) \<and> length bm' = length bm"
proof -
  from assms have v: "0 \<le> w" "nat w < length bm" and e: "bm' = bm[nat w := True]"
    by (auto simp: Mark_def valid_bit_def split: if_splits)
  from marked_set_bit[OF v(2)] v(1) e show ?thesis by simp
qed

lemma no_entries_no_reachable:
  assumes "entries_of cfg d DirectorySector = []"
  shows "\<not> reachable cfg d e"
proof
  assume "reachable cfg d e"
  then show False using assms by (induction rule: reachable.induct) simp_all
qed

lemma Format_Inv:
  assumes wf: "wf_config cfg" and mpos: "0 < FreeMapFileSize cfg" and dpos: "0 < DirectoryFileSize cfg"
    and fmt: "Format cfg d0 = Inr fs"
  shows "\<exists>bm bmS. Inv cfg fs bm bmS"
proof (rule Format_success[OF fmt])
  fix fm0 fm1 mapHdr fm2 dirHdr freeMap mapFile dirFile d3 d4
  assume f1: "Mark (Bitmap_new (NumSectors cfg)) FreeMapSector = Inr fm0"
    and f2: "Mark fm0 DirectorySector = Inr fm1"
    and f3: "Allocate cfg fm1 (FreeMapFileSize cfg) (FileHeader_new cfg) = Inr (True, mapHdr, fm2)"
    and f4: "Allocate cfg fm2 (DirectoryFileSize cfg) (FileHeader_new cfg) = Inr (True, dirHdr, freeMap)"
    and f5: "OpenFile_new cfg (WriteBack cfg dirHdr DirectorySector (WriteBack cfg mapHdr FreeMapSector d0))
       FreeMapSector = Inr mapFile"
    and f6: "OpenFile_new cfg (WriteBack cfg dirHdr DirectorySector (WriteBack cfg mapHdr FreeMapSector d0))
       DirectorySector = Inr dirFile"
    and f7: "PersistentBitmap_WriteBack cfg
       (WriteBack cfg dirHdr DirectorySector (WriteBack cfg mapHdr FreeMapSector d0))
       mapFile freeMap = Inr d3"
    and f8: "Directory_WriteBack cfg d3 dirFile (Directory_new (NumDirEntries cfg)) = Inr d4"
    and f9: "fs = \<lparr>disk = d4, freeMapFile = mapFile, directoryFile = dirFile\<rparr>"
  define d1 where "d1 = WriteBack cfg mapHdr FreeMapSector d0"
  define d2 where "d2 = WriteBack cfg dirHdr DirectorySector d1"
  have ne: "FreeMapSector \<noteq> DirectorySector" by (simp add: FreeMapSector_def DirectorySector_def)
  \<comment> \<open>the free map\<close>
  have m1: "marked fm1 = {FreeMapSector, DirectorySector}" and l1: "length fm1 = NumSectors cfg"
  proof -
    have "length (Bitmap_new (NumSectors cfg)) = NumSectors cfg" by (simp add: Bitmap_new_def)
    then show "marked fm1 = {FreeMapSector, DirectorySector}" "length fm1 = NumSectors cfg"
      using Mark_marked[OF f1] Mark_marked[OF f2] marked_new[of "NumSectors cfg"] by auto
  qed
  note A1 = Allocate_marked[OF wf f3]
  note A2 = Allocate_marked[OF wf f4]
  have m2: "marked fm2 = {FreeMapSector, DirectorySector} \<union> hdr_sectors mapHdr" using A1 m1 by auto
  have x1: "FreeMapSector \<notin> hdr_sectors mapHdr" "DirectorySector \<notin> hdr_sectors mapHdr"
    using A1 m1 by auto
  have m3: "marked freeMap = {FreeMapSector, DirectorySector} \<union> hdr_sectors mapHdr \<union> hdr_sectors dirHdr"
    using A2 m2 by auto
  have x2: "FreeMapSector \<notin> hdr_sectors dirHdr" "DirectorySector \<notin> hdr_sectors dirHdr"
    "hdr_sectors dirHdr \<inter> hdr_sectors mapHdr = {}"
    using A2 m2 by auto
  have l3: "length freeMap = NumSectors cfg"
    using Allocate_length[OF wf f3] Allocate_length[OF wf f4] l1 by simp
  have i1: "set (indirect_sectors cfg mapHdr) \<subseteq> hdr_sectors mapHdr"
    and i2: "set (indirect_sectors cfg dirHdr) \<subseteq> hdr_sectors dirHdr"
    by (rule indirect_sub)+
  \<comment> \<open>the two headers\<close>
  note W1 = Allocate_WriteBack[OF wf f3 x1(1), where d = d0, folded d1_def]
  note W2 = Allocate_WriteBack[OF wf f4 x2(2), where d = d1, folded d2_def]
  have o0: "FetchFrom cfg d2 FreeMapSector (FileHeader_new cfg) = Inr mapHdr"
  proof (rule FetchFrom_frame[OF W1(1)])
    show "d2 FreeMapSector = d1 FreeMapSector" using W2(2)[of FreeMapSector] ne x2(1) i2 by auto
    show "\<forall>x\<in>set (indirect_sectors cfg mapHdr). d2 x = d1 x"
    proof
      fix x assume "x \<in> set (indirect_sectors cfg mapHdr)"
      then have "x \<in> hdr_sectors mapHdr" using i1 by auto
      then have "x \<noteq> DirectorySector" "x \<notin> set (indirect_sectors cfg dirHdr)" using x1 x2 i2 by auto
      then show "d2 x = d1 x" using W2(2) by simp
    qed
  qed
  have mf: "mapFile = mapHdr" using f5 o0 by (simp add: OpenFile_new_def d1_def d2_def)
  have df: "dirFile = dirHdr" using f6 W2(1) by (simp add: OpenFile_new_def d1_def d2_def)
  \<comment> \<open>the two bodies\<close>
  define bmS where "bmS = dataSectors mapHdr ! 0"
  define bR where "bR = dataSectors dirHdr ! 0"
  have nb1: "numBytes mapHdr = FreeMapFileSize cfg" using Allocate_post[OF wf f3] by simp
  have nb2: "numBytes dirHdr = DirectoryFileSize cfg" using Allocate_post[OF wf f4] by simp
  from A1 mpos have b1: "ByteToSector cfg mapHdr 0 = Inr bmS" "bmS \<in> hdr_sectors mapHdr"
    "bmS \<notin> set (indirect_sectors cfg mapHdr)" by (simp_all add: bmS_def)
  from A2 dpos have b2: "ByteToSector cfg dirHdr 0 = Inr bR" "bR \<in> hdr_sectors dirHdr"
    "bR \<notin> set (indirect_sectors cfg dirHdr)" by (simp_all add: bR_def)
  have body1: "body_sector cfg mapHdr = Inr (Some bmS)" using nb1 mpos b1(1) by (simp add: body_sector_def)
  have body2: "body_sector cfg dirHdr = Inr (Some bR)" using nb2 dpos b2(1) by (simp add: body_sector_def)
  have d3: "d3 = d2(bmS := MapSector freeMap)"
    using f7 mf body1 by (simp add: PersistentBitmap_WriteBack_def d1_def d2_def)
  have d4: "d4 = d3(bR := DirSector (Directory_new (NumDirEntries cfg)))"
    using f8 df body2 by (simp add: Directory_WriteBack_def)
  have bne: "bR \<noteq> bmS" using b1(2) b2(2) x2(3) by auto
  have oR: "OpenFile_new cfg d4 DirectorySector = Inr dirHdr"
    unfolding OpenFile_new_def
  proof (rule FetchFrom_frame[OF W2(1)])
    have "DirectorySector \<noteq> bmS" "DirectorySector \<noteq> bR" using b1(2) b2(2) x1 x2 by auto
    then show "d4 DirectorySector = d2 DirectorySector" using d4 d3 by simp
    show "\<forall>x\<in>set (indirect_sectors cfg dirHdr). d4 x = d2 x"
    proof
      fix x assume x: "x \<in> set (indirect_sectors cfg dirHdr)"
      then have "x \<in> hdr_sectors dirHdr" using i2 by auto
      then have "x \<noteq> bmS" using b1(2) x2(3) by auto
      moreover have "x \<noteq> bR" using x b2(3) by auto
      ultimately show "d4 x = d2 x" using d4 d3 by simp
    qed
  qed
  have ty: "\<forall>x\<in>set (indirect_sectors cfg dirHdr). is_hdr (d4 x)"
  proof
    fix x assume x: "x \<in> set (indirect_sectors cfg dirHdr)"
    then have "x \<in> hdr_sectors dirHdr" using i2 by auto
    then have "x \<noteq> bmS" using b1(2) x2(3) by auto
    moreover have "x \<noteq> bR" using x b2(3) by auto
    ultimately have "d4 x = d2 x" using d4 d3 by simp
    then show "is_hdr (d4 x)" using W2(3)[OF x] by simp
  qed
  have dR: "d4 bR = DirSector (Directory_new (NumDirEntries cfg))" using d4 by simp
  have dM: "d4 bmS = MapSector freeMap" using d4 d3 bne by simp
  have lenN: "length (Directory_new (NumDirEntries cfg)) = NumDirEntries cfg"
    by (simp add: Directory_new_def)
  have "entries_of cfg d4 DirectorySector = filter inUse (Directory_new (NumDirEntries cfg))"
    by (rule entries_of_dir[OF oR body2 dR lenN])
  then have ent: "entries_of cfg d4 DirectorySector = []" by (simp add: Directory_new_def)
  note nr = no_entries_no_reachable[OF ent]
  have dirs: "is_directory cfg d4 ds \<longleftrightarrow> ds = DirectorySector" for ds
    using nr by (simp add: is_directory_def)
  have rs: "reachable_sectors cfg d4 = {}" using nr by (simp add: reachable_sectors_def)
  have okR: "hdr_ok cfg d4 freeMap DirectorySector dirHdr"
    using oR m3 ty by (auto simp: hdr_ok_def)
  have dok: "dir_ok cfg d4 freeMap DirectorySector"
    unfolding dir_ok_def using okR body2 dR lenN b2(2) m3 by blast
  have dirs': "is_directory cfg d4 = (\<lambda>ds. ds = DirectorySector)"
    by (rule ext) (simp add: dirs)
  have "Inv cfg fs freeMap bmS"
    unfolding Inv_def f9 using body1 mf df dM l3 b1(2) m3 oR dok dirs' nr rs by simp
  then show ?thesis by blast
qed

lemma marked_code [code]: "marked bm = int ` set (filter (\<lambda>i. bm ! i) [0..<length bm])"
  by (auto simp: marked_def)

lemma reachable_state_Inv:
  assumes wf: "wf_config cfg" and mpos: "0 < FreeMapFileSize cfg" and dpos: "0 < DirectoryFileSize cfg"
    and r: "reachable_state cfg fs"
  shows "\<exists>bm bmS. Inv cfg fs bm bmS"
  using r
proof (induction rule: reachable_state.induct)
  case (formatted d0 fs)
  then show ?case by (rule Format_Inv[OF wf mpos dpos])
next
  case (created fs nm sz dirflag fs' s)
  from created.IH obtain bm bmS where "Inv cfg fs bm bmS" by blast
  from Create_Inv[OF wf dpos this created.hyps(2,3,4)] show ?case by blast
qed

lemma Create_fs_d: "Create cfg0 fs0 ''//d'' 0 True = Inr (1, fs_d)"
proof -
  have "result_of (Create cfg0 fs0 ''//d'' 0 True) = Inr 1" by code_simp
  then show ?thesis unfolding fs_d_def state_of_def result_of_def
    by (cases "Create cfg0 fs0 ''//d'' 0 True") auto
qed

lemma Create_fs_dx: "Create cfg0 fs_d ''/d/x'' 10 False = Inr (1, fs_dx)"
proof -
  have "result_of (Create cfg0 fs_d ''/d/x'' 10 False) = Inr 1" by code_simp
  then show ?thesis unfolding fs_dx_def state_of_def result_of_def
    by (cases "Create cfg0 fs_d ''/d/x'' 10 False") auto
qed

lemma reachable_fs_dx: "reachable_state cfg0 fs_dx"
proof -
  have r0: "reachable_state cfg0 fs0" by (rule formatted[OF Format_fs0])
  have b0: "Create_base cfg0 fs0 ''//d'' = Inr 1" by code_simp
  have d0: "is_directory cfg0 (disk fs0) 1" by (simp add: is_directory_def DirectorySector_def)
  have r1: "reachable_state cfg0 fs_d" by (rule created[OF r0 Create_fs_d b0 d0])
  have b1: "Create_base cfg0 fs_d ''/d/x'' = Inr 4" by code_simp
  have e: "entries_of cfg0 (disk fs_d) DirectorySector =
             [\<lparr>inUse = True, sector = 4, name = ''/d'', isDir = True\<rparr>]" by code_simp
  have "reachable cfg0 (disk fs_d) \<lparr>inUse = True, sector = 4, name = ''/d'', isDir = True\<rparr>"
    by (rule in_root) (simp add: e)
  then have d1: "is_directory cfg0 (disk fs_d) 4" unfolding is_directory_def by force
  show ?thesis by (rule created[OF r1 Create_fs_dx b1 d1])
qed

lemma empty_root_sectors:
  "entries_of cfg d DirectorySector = [] \<Longrightarrow> reachable_sectors cfg d = {}"
  using no_entries_no_reachable by (simp add: reachable_sectors_def)

lemma plain_root_reachable:
  assumes "\<forall>e\<in>set (entries_of cfg d DirectorySector). \<not> isDir e"
  shows "reachable cfg d e \<longleftrightarrow> e \<in> set (entries_of cfg d DirectorySector)"
proof
  assume "reachable cfg d e"
  then show "e \<in> set (entries_of cfg d DirectorySector)"
    using assms by (induction rule: reachable.induct) auto
next
  assume "e \<in> set (entries_of cfg d DirectorySector)"
  then show "reachable cfg d e" by (rule in_root)
qed

section \<open>Deallocate\<close>

text \<open>
  C1 (the claim: \<^verbatim>\<open>Deallocate\<close> clears the bit of every sector the header references).
  The code does not: for the five-sector file \<open>hdr5\<close>, allocated by \<^verbatim>\<open>Allocate\<close> itself, the
  inner loop of \<^verbatim>\<open>Deallocate\<close> clears sector 9 of the first indirect header, comes round
  again with the same \<open>j\<close> and fails its \<^verbatim>\<open>ASSERT\<close> on the bit it has just cleared.  No free
  map is returned.
\<close>

theorem C1_Deallocate_aborts:
  "Allocate cfg0 bm0 640 (FileHeader_new cfg0) = Inr (True, hdr5, bm5) \<and>
   Deallocate cfg0 hdr5 bm5 = Inl AssertFail"
  by code_simp

section \<open>ByteToSector\<close>

lemma c_div_nonneg: "0 \<le> a \<Longrightarrow> 0 < b \<Longrightarrow> c_div a b = a div b"
  by (cases "a = 0") (simp_all add: c_div_def)

lemma c_mod_nonneg: "0 \<le> a \<Longrightarrow> 0 < b \<Longrightarrow> c_mod a b = a mod b"
  by (simp add: c_mod_def c_div_nonneg minus_mult_div_eq_mod)

text \<open>
  C3, as amended.  For a header \<open>h\<close> (its \<^verbatim>\<open>dataSectors\<close> array and those of its indirect
  headers have their declared length) and an offset with \<open>0 \<le> offset < numBytes\<close>, let
  \<open>p = offset / SectorSize\<close>.  If \<open>p < NumDirect\<close>, \<^verbatim>\<open>ByteToSector\<close> returns
  \<open>dataSectors[p]\<close>.  Otherwise, with \<open>p' = p - NumDirect\<close>: if entry \<open>p' / NumMaxSect\<close> of the
  indirect table exists and holds an indirect header, it returns pointer \<open>p' mod NumMaxSect\<close>
  of that header; if the entry lies outside the table the read is out of bounds, and if it
  is NULL the code dereferences NULL.
\<close>

theorem C3_ByteToSector:
  assumes wf: "wf_config cfg"
    and len: "length (dataSectors h) = NumSlots cfg"
    and off: "0 \<le> offset" "offset < numBytes h"
  shows "let p = offset div int (SectorSize cfg);
             p' = p - int (NumDirect cfg);
             i = nat (p' div int (NumMaxSect cfg));
             j = nat (p' mod int (NumMaxSect cfg))
         in (p < int (NumDirect cfg) \<longrightarrow> ByteToSector cfg h offset = Inr (dataSectors h ! nat p)) \<and>
            (int (NumDirect cfg) \<le> p \<longrightarrow>
               (\<forall>c. i < length (indirectTable h) \<and> indirectTable h ! i = Some c \<and>
                    length (dataSectors c) = NumSlots cfg
                    \<longrightarrow> ByteToSector cfg h offset = Inr (dataSectors c ! j)) \<and>
               (length (indirectTable h) \<le> i \<longrightarrow> ByteToSector cfg h offset = Inl OutOfBounds) \<and>
               (i < length (indirectTable h) \<and> indirectTable h ! i = None
                    \<longrightarrow> ByteToSector cfg h offset = Inl NullDeref))"
proof -
  have S: "0 < int (SectorSize cfg)" and M: "0 < int (NumMaxSect cfg)"
    and MS: "NumMaxSect cfg \<le> NumSlots cfg"
    using wf by (simp_all add: wf_config_def)
  define p where "p = offset div int (SectorSize cfg)"
  have p0: "0 \<le> p" using off(1) S by (simp add: p_def pos_imp_zdiv_nonneg_iff)
  have pos: "c_div offset (int (SectorSize cfg)) = p"
    using c_div_nonneg[OF off(1) S] by (simp add: p_def)
  have direct: "ByteToSector cfg h offset = Inr (dataSectors h ! nat p)" if "p < int (NumDirect cfg)"
  proof -
    have "nat p < length (dataSectors h)" using that p0 len by (simp add: NumSlots_def)
    then show ?thesis using that p0 by (simp add: ByteToSector_def pos)
  qed
  define p' where "p' = p - int (NumDirect cfg)"
  define i where "i = nat (p' div int (NumMaxSect cfg))"
  define j where "j = nat (p' mod int (NumMaxSect cfg))"
  have ind: "ByteToSector cfg h offset =
      (if length (indirectTable h) \<le> i then Inl OutOfBounds
       else case indirectTable h ! i of
              None \<Rightarrow> Inl NullDeref
            | Some c \<Rightarrow> if length (dataSectors c) \<le> j then Inl OutOfBounds
                        else Inr (dataSectors c ! j))"
    if "int (NumDirect cfg) \<le> p"
  proof -
    have q: "0 \<le> p'" using that by (simp add: p'_def)
    have d: "c_div p' (int (NumMaxSect cfg)) = p' div int (NumMaxSect cfg)"
      and m: "c_mod p' (int (NumMaxSect cfg)) = p' mod int (NumMaxSect cfg)"
      using c_div_nonneg[OF q M] c_mod_nonneg[OF q M] by simp_all
    have "0 \<le> p' div int (NumMaxSect cfg)" using q M by (simp add: pos_imp_zdiv_nonneg_iff)
    moreover have "0 \<le> p' mod int (NumMaxSect cfg)" using M by simp
    ultimately show ?thesis
      using that q
      by (simp add: ByteToSector_def pos Let_def p'_def[symmetric] d m i_def j_def not_less[symmetric]
          split: option.splits)
  qed
  have jlt: "j < NumSlots cfg"
  proof -
    have "p' mod int (NumMaxSect cfg) < int (NumMaxSect cfg)" using M by simp
    moreover have "0 \<le> p' mod int (NumMaxSect cfg)" using M by simp
    ultimately have "j < NumMaxSect cfg" unfolding j_def by linarith
    then show ?thesis using MS by simp
  qed
  show ?thesis
    unfolding Let_def p_def[symmetric] p'_def[symmetric] i_def[symmetric] j_def[symmetric]
    using direct ind jlt by auto
qed

theorem C3_ByteToSector_witness:
  "ByteToSector cfg0 hdr5 130 = Inr 5 \<and> ByteToSector cfg0 hdr5 520 = Inr 9"
proof -
  have len: "length (dataSectors hdr5) = NumSlots cfg0" by code_simp
  have a: "(0::int) \<le> 130" "130 < numBytes hdr5" "(0::int) \<le> 520" "520 < numBytes hdr5"
    by (simp_all add: hdr5_def)
  have t0: "indirectTable hdr5 ! 0 = Some \<lparr>numBytes = 128, numSectors = 1,
                     dataSectors = [9, - 1, - 1, - 1, - 1, - 1, - 1, - 1]\<rparr>"
    by (simp add: hdr5_def)
  have e: "(130::int) div int (SectorSize cfg0) = 1" "(520::int) div int (SectorSize cfg0) = 4"
    "int (NumDirect cfg0) = 4" "int (NumMaxSect cfg0) = 4" "NumSlots cfg0 = 8"
    by (simp_all add: cfg0_def NumSlots_def)
  from C3_ByteToSector[OF wf_cfg0 len a(1,2)] have "ByteToSector cfg0 hdr5 130 = Inr 5"
    by (simp add: Let_def e hdr5_def)
  moreover from C3_ByteToSector[OF wf_cfg0 len a(3,4)] have "ByteToSector cfg0 hdr5 520 = Inr 9"
    by (simp add: Let_def e t0) (simp add: hdr5_def)
  ultimately show ?thesis by simp
qed

text \<open>
  The claim as stated fails: \<open>hdr_big\<close> is what a successful \<^verbatim>\<open>Allocate\<close> returns for 2688
  bytes; offset 2560 is below its \<open>numBytes\<close>, and \<^verbatim>\<open>ByteToSector\<close> indexes the indirect table
  at 4, past its end, and returns no sector.
\<close>

theorem C3_counterexample:
  "Allocate cfg0 bm0 2688 (FileHeader_new cfg0) = Inr (True, hdr_big, bm_big) \<and>
   (0::int) \<le> 2560 \<and> 2560 < numBytes hdr_big \<and>
   ByteToSector cfg0 hdr_big 2560 = Inl OutOfBounds"
  by code_simp

section \<open>Allocate and the free map\<close>

text \<open>
  C4, as amended.  When \<^verbatim>\<open>Allocate(freeMap, fileSize)\<close> on a fresh header returns TRUE and
  the sector count \<open>ceil(fileSize / SectorSize)\<close> is not negative and not above
  \<open>NumDirect + NumIndirect * NumMaxSect\<close>, \<open>NumClear\<close> has decreased by exactly that sector count
  plus the number of indirect-header sectors of the header.
\<close>

theorem C4_decrement:
  assumes wf: "wf_config cfg"
    and al: "Allocate cfg freeMap fileSize (FileHeader_new cfg) = Inr (True, h, freeMap')"
    and lo: "0 \<le> divRoundUp fileSize (int (SectorSize cfg))"
    and hi: "divRoundUp fileSize (int (SectorSize cfg))
               \<le> int (NumDirect cfg) + int (NumIndirect cfg) * int (NumMaxSect cfg)"
  shows "int (NumClear freeMap) - int (NumClear freeMap') =
           divRoundUp fileSize (int (SectorSize cfg)) + int (length (indirect_sectors cfg h))"
proof -
  define nS where "nS = divRoundUp fileSize (int (SectorSize cfg))"
  define m where "m = indirect_count cfg nS"
  note P = Allocate_post[OF wf al, folded nS_def, folded m_def]
  have isec: "indirect_sectors cfg h = map (slot cfg h) [0..<m]"
    using P by (intro indirect_sectors_eq) auto
  have M: "0 < int (NumMaxSect cfg)" using wf by (simp add: wf_config_def)
  show ?thesis
  proof (cases "nS > int (NumDirect cfg)")
    case False
    then have "m = 0" by (simp add: m_def indirect_count_def)
    then show ?thesis using P False lo isec by (simp add: nS_def[symmetric])
  next
    case True
    define offset where "offset = nS - int (NumDirect cfg)"
    have off: "offset \<le> int (NumIndirect cfg) * int (NumMaxSect cfg)" "0 < offset"
      using hi True by (simp_all add: offset_def nS_def)
    have le: "divRoundUp offset (int (NumMaxSect cfg)) \<le> int (NumIndirect cfg)"
      using divRoundUp_le[OF M off(1)] .
    have pos: "0 < divRoundUp offset (int (NumMaxSect cfg))"
      using divRoundUp_pos[OF M off(2)] .
    have m: "int m = divRoundUp offset (int (NumMaxSect cfg))"
      using True le pos by (simp add: m_def indirect_count_def offset_def min_def)
    have "offset \<le> int m * int (NumMaxSect cfg)"
      using divRoundUp_ge[OF M, of offset] m by simp
    then have "min offset (int m * int (NumMaxSect cfg)) = offset" by simp
    then show ?thesis using P True isec by (simp add: nS_def[symmetric] offset_def)
  qed
qed

theorem C4_decrement_witness:
  "int (NumClear bm0) - int (NumClear bm5) =
     divRoundUp 640 (int (SectorSize cfg0)) + int (length (indirect_sectors cfg0 hdr5))"
proof -
  have lo: "0 \<le> divRoundUp 640 (int (SectorSize cfg0))" by code_simp
  have hi: "divRoundUp 640 (int (SectorSize cfg0))
               \<le> int (NumDirect cfg0) + int (NumIndirect cfg0) * int (NumMaxSect cfg0)" by code_simp
  show ?thesis by (rule C4_decrement[OF wf_cfg0 Allocate_hdr5 lo hi])
qed

text \<open>
  The claim as stated fails outside that range.  For 2688 bytes (21 sectors) \<^verbatim>\<open>Allocate\<close>
  returns TRUE after taking 24 sectors, 20 of data and 4 indirect headers, not 21 + 4.  For
  -200 bytes it returns TRUE and takes nothing, while \<open>ceil(-200 / 128)\<close> is -1.
\<close>

theorem C4_counterexample:
  "Allocate cfg0 bm0 2688 (FileHeader_new cfg0) = Inr (True, hdr_big, bm_big) \<and>
   int (NumClear bm0) - int (NumClear bm_big) = 24 \<and>
   divRoundUp 2688 (int (SectorSize cfg0)) + int (length (indirect_sectors cfg0 hdr_big)) = 25 \<and>
   Allocate cfg0 bm0 (- 200) (FileHeader_new cfg0)
     = Inr (True, (FileHeader_new cfg0)\<lparr>numBytes := - 200, numSectors := - 1\<rparr>, bm0) \<and>
   int (NumClear bm0) - int (NumClear bm0) = 0 \<and>
   divRoundUp (- 200) (int (SectorSize cfg0))
     + int (length (indirect_sectors cfg0 ((FileHeader_new cfg0)\<lparr>numBytes := - 200, numSectors := - 1\<rparr>))) = - 1"
  by code_simp

text \<open>
  C9.  In a header that a successful \<^verbatim>\<open>Allocate\<close> made from a fresh one, an indirect slot
  holding -1 is followed by indirect slots holding -1 only.  \<^verbatim>\<open>FetchFrom\<close> relies on it: the
  header it reads has no indirect header loaded at or after the first indirect slot that
  holds -1, whatever the later slots hold.
\<close>

theorem C9_contiguous:
  assumes wf: "wf_config cfg"
    and al: "Allocate cfg freeMap fileSize (FileHeader_new cfg) = Inr (True, h, freeMap')"
  shows "(\<forall>i j. i \<le> j \<and> j < NumIndirect cfg \<and> dataSectors h ! (NumDirect cfg + i) = -1
            \<longrightarrow> dataSectors h ! (NumDirect cfg + j) = -1) \<and>
         (\<forall>dsk s g i j. FetchFrom cfg dsk s (FileHeader_new cfg) = Inr g \<and>
             i < NumIndirect cfg \<and> dataSectors g ! (NumDirect cfg + i) = -1 \<and> i \<le> j \<and> j < NumIndirect cfg
            \<longrightarrow> indirectTable g ! j = None)"
proof -
  define m where "m = indirect_count cfg (divRoundUp fileSize (int (SectorSize cfg)))"
  note P = Allocate_post[OF wf al, folded m_def]
  have A: "\<forall>i j. i \<le> j \<and> j < NumIndirect cfg \<and> dataSectors h ! (NumDirect cfg + i) = -1
            \<longrightarrow> dataSectors h ! (NumDirect cfg + j) = -1"
  proof (intro allI impI)
    fix i j assume a: "i \<le> j \<and> j < NumIndirect cfg \<and> dataSectors h ! (NumDirect cfg + i) = -1"
    have "\<not> i < m"
    proof
      assume "i < m"
      then have "0 \<le> slot cfg h i" using P by blast
      then show False using a by (simp add: slot_def)
    qed
    then have "m \<le> j" using a by simp
    then have "slot cfg h j = -1" using P a by blast
    then show "dataSectors h ! (NumDirect cfg + j) = -1" by (simp add: slot_def)
  qed
  have B: "\<forall>dsk s g i j. FetchFrom cfg dsk s (FileHeader_new cfg) = Inr g \<and>
             i < NumIndirect cfg \<and> dataSectors g ! (NumDirect cfg + i) = -1 \<and> i \<le> j \<and> j < NumIndirect cfg
            \<longrightarrow> indirectTable g ! j = None"
  proof (intro allI impI)
    fix dsk s g i j
    assume a: "FetchFrom cfg dsk s (FileHeader_new cfg) = Inr g \<and>
             i < NumIndirect cfg \<and> dataSectors g ! (NumDirect cfg + i) = -1 \<and> i \<le> j \<and> j < NumIndirect cfg"
    then obtain img :: hdr_image where
      f: "fetch_indirect cfg dsk 0 (NumIndirect cfg)
            ((FileHeader_new cfg)\<lparr>numBytes := numBytes img, numSectors := numSectors img,
               dataSectors := dataSectors img\<rparr>) = Inr g"
      by (auto simp: FetchFrom_def split: sum.splits)
    note K = fetch_indirect_keeps[OF f]
    have "dataSectors img ! (NumDirect cfg + i) = -1" using K a by simp
    then have "indirectTable g ! j = indirectTable (FileHeader_new cfg) ! j"
      using K a by auto
    then show "indirectTable g ! j = None" using a by (simp add: FileHeader_new_def)
  qed
  show ?thesis using A B by blast
qed

theorem C9_contiguous_witness:
  "dataSectors hdr5 ! (NumDirect cfg0 + 1) = -1 \<and> dataSectors hdr5 ! (NumDirect cfg0 + 3) = -1 \<and>
   FetchFrom cfg0 (WriteBack cfg0 hdr5 20 empty_disk) 20 (FileHeader_new cfg0) = Inr hdr5 \<and>
   indirectTable hdr5 ! 2 = None"
proof -
  note T = C9_contiguous[OF wf_cfg0 Allocate_hdr5]
  have a: "dataSectors hdr5 ! (NumDirect cfg0 + 1) = -1" by code_simp
  have b: "(1::nat) \<le> 3 \<and> 3 < NumIndirect cfg0" by code_simp
  have f: "FetchFrom cfg0 (WriteBack cfg0 hdr5 20 empty_disk) 20 (FileHeader_new cfg0) = Inr hdr5"
    by code_simp
  have c: "(1::nat) < NumIndirect cfg0 \<and> (1::nat) \<le> 2 \<and> 2 < NumIndirect cfg0" by code_simp
  from T a b have "dataSectors hdr5 ! (NumDirect cfg0 + 3) = -1" by blast
  moreover from T f a c have "indirectTable hdr5 ! 2 = None" by blast
  ultimately show ?thesis using a f by simp
qed

section \<open>Writing a header and reading it back\<close>

text \<open>
  C7, as amended.  For a header \<open>h\<close> that a successful \<^verbatim>\<open>Allocate\<close> made for length \<open>L\<close>, and
  every sector \<open>s\<close> that is not one of the indirect-header sectors of \<open>h\<close>: after
  \<^verbatim>\<open>h.WriteBack(s)\<close>, \<^verbatim>\<open>FetchFrom(s)\<close> on a fresh header succeeds and the header \<open>h'\<close> it reads has
  the same sequence \<open>ByteToSector(k)\<close>, \<open>k\<close> in \<open>[0, L)\<close>, as \<open>h\<close>.
\<close>

theorem C7_roundtrip:
  assumes wf: "wf_config cfg"
    and al: "Allocate cfg freeMap L (FileHeader_new cfg) = Inr (True, h, freeMap')"
    and s: "s \<notin> set (indirect_sectors cfg h)"
  shows "\<exists>h'. FetchFrom cfg (WriteBack cfg h s dsk) s (FileHeader_new cfg) = Inr h' \<and>
              sector_sequence cfg h' L = sector_sequence cfg h L"
proof -
  define m where "m = indirect_count cfg (divRoundUp L (int (SectorSize cfg)))"
  note P = Allocate_post[OF wf al, folded m_def]
  have isec: "indirect_sectors cfg h = map (slot cfg h) [0..<m]"
    using P by (intro indirect_sectors_eq) auto
  have s': "\<forall>k. k < m \<longrightarrow> slot cfg h k \<noteq> s" using s unfolding isec by auto
  have "FetchFrom cfg (WriteBack cfg h s dsk) s (FileHeader_new cfg) = Inr h"
    using P s' by (intro sectors_roundtrip[where m = m]) auto
  then show ?thesis by simp
qed

theorem C7_roundtrip_witness:
  "20 \<notin> set (indirect_sectors cfg0 hdr5) \<and>
   (\<exists>h'. FetchFrom cfg0 (WriteBack cfg0 hdr5 20 empty_disk) 20 (FileHeader_new cfg0) = Inr h' \<and>
         sector_sequence cfg0 h' 640 = sector_sequence cfg0 hdr5 640)"
proof -
  have s: "20 \<notin> set (indirect_sectors cfg0 hdr5)" by code_simp
  show ?thesis using s C7_roundtrip[OF wf_cfg0 Allocate_hdr5 s, of empty_disk] by simp
qed

text \<open>
  The claim as stated, for every sector \<open>s\<close>, fails when \<open>s\<close> is the sector of an indirect
  header of \<open>h\<close>.  \<open>hdr5\<close> has its indirect header in sector 8; \<^verbatim>\<open>WriteBack(8)\<close> writes the
  header to sector 8 and then the indirect header over it, and \<^verbatim>\<open>FetchFrom(8)\<close> reads the
  indirect header: byte 0 is then found in sector 9, not in sector 4.
\<close>

theorem C7_counterexample:
  "Allocate cfg0 bm0 640 (FileHeader_new cfg0) = Inr (True, hdr5, bm5) \<and>
   FetchFrom cfg0 (WriteBack cfg0 hdr5 8 empty_disk) 8 (FileHeader_new cfg0) = Inr hdr5_back \<and>
   ByteToSector cfg0 hdr5_back 0 = Inr 9 \<and> ByteToSector cfg0 hdr5 0 = Inr 4"
  by code_simp

section \<open>Closing an open file\<close>

text \<open>
  C8, as amended.  For every identifier inside the bounds of the table whose entry holds no
  open file, \<^verbatim>\<open>CloseFileId\<close> returns 0 and leaves the table unchanged.  The code checks no
  range: an identifier outside the table is read out of bounds.
\<close>

theorem C8_CloseFileId:
  "(0 \<le> fd \<and> nat fd < length tbl \<and> tbl ! nat fd = None \<longrightarrow> CloseFileId fd tbl = Inr (0, tbl)) \<and>
   (fd < 0 \<or> length tbl \<le> nat fd \<longrightarrow> CloseFileId fd tbl = Inl OutOfBounds)"
  by (auto simp: CloseFileId_def)

theorem C8_CloseFileId_witness:
  "CloseFileId 2 [None, Some (), None] = Inr (0, [None, Some (), None]) \<and>
   CloseFileId 3 [None, Some (), None] = Inl OutOfBounds"
  using C8_CloseFileId[of 2 "[None, Some (), None]"] C8_CloseFileId[of 3 "[None, Some (), None]"]
  by simp

text \<open>
  The claim as stated fails for an identifier out of range: with a table of three entries,
  \<^verbatim>\<open>CloseFileId(-1)\<close> and \<^verbatim>\<open>CloseFileId(3)\<close> do not return 0 with the table unchanged.
\<close>

theorem C8_counterexample:
  "CloseFileId (- 1) [None, Some (), None] \<noteq> Inr (0, [None, Some (), None]) \<and>
   CloseFileId 3 [None, Some (), None] \<noteq> Inr (0, [None, Some (), None])"
  by (simp add: CloseFileId_def)

section \<open>Create and Remove\<close>

lemma Create_failure_keeps_state:
  assumes "Create cfg fs nm initialSize dir = Inr (0, fs')"
  shows "fs' = fs"
proof (rule ccontr)
  assume ne: "fs' \<noteq> fs"
  show False
  proof (rule Create_success[OF assms ne])
    fix hs d3
    assume "(if dir then
            (case OpenFile_new cfg d3 hs of
               Inl e \<Rightarrow> Inl e
             | Inr newFile \<Rightarrow>
                 (case Directory_WriteBack cfg d3 newFile (Directory_new (NumDirEntries cfg)) of
                    Inl e \<Rightarrow> Inl e
                  | Inr d4 \<Rightarrow> Inr (1::int, fs\<lparr>disk := d4\<rparr>)))
          else Inr (1, fs\<lparr>disk := d3\<rparr>)) = Inr (0, fs')"
    then show False by (auto split: if_splits sum.splits)
  qed
qed

text \<open>
  C5 (the claim: whenever \<^verbatim>\<open>Create\<close> fails, also for want of space for the data blocks, it
  returns 0 and the disk is as before).  When \<^verbatim>\<open>Create\<close> returns 0 the state is unchanged
  (\<open>Create_failure_keeps_state\<close>).  But it does not always return: on the 64-sector volume
  with ten sectors free, \<^verbatim>\<open>Create("//a", 1152, false)\<close> takes a header sector, passes the check
  \<^verbatim>\<open>NumClear() < numSectors\<close> (nine free, nine needed), fills four direct sectors, one indirect
  header and its four sectors, and fails the \<^verbatim>\<open>ASSERT\<close> on the sector for the second indirect
  header, the map being full.
\<close>

theorem C5_Create_aborts:
  "\<not> isl (Format cfg0 empty_disk) \<and>
   result_of (Create cfg0 fs0 ''//f'' 2560 False) = Inr 1 \<and>
   result_of (Create cfg0 (state_of (Create cfg0 fs0 ''//f'' 2560 False)) ''//g'' 2560 False)
     = Inr 1 \<and>
   map_sum id NumClear (PersistentBitmap_fetch cfg0 (disk fs_full) (freeMapFile fs_full)) = Inr 10 \<and>
   result_of (Create cfg0 fs_full ''//a'' 1152 False) = Inl AssertFail"
  by code_simp

text \<open>
  C6.  When the base path resolves to a directory and \<^verbatim>\<open>Find\<close> there gives -1 for the leaf
  name (it is absent) or gives \<open>DirectorySector\<close>, \<^verbatim>\<open>Remove\<close> returns FALSE and the state,
  the disk included, is the one before the call, whatever \<open>recur\<close> is.
\<close>

theorem C6_Remove_refuses:
  assumes "OPENDIR cfg (disk fs) (directoryFile fs) = Inr rootDirectory"
    and "ExtractBasePath (MAX_PATH_LEN cfg + 1) (FileNameMaxLen cfg + 1) nm = Inr (BasePath, filename)"
    and "SearchPath cfg (disk fs) rootDirectory BasePath 0 = Inr bs" "bs \<noteq> -1"
    and "OpenFile_new cfg (disk fs) bs = Inr baseDir"
    and "OPENDIR cfg (disk fs) baseDir = Inr baseDirectory"
    and "Find cfg baseDirectory filename = -1 \<or> Find cfg baseDirectory filename = DirectorySector"
  shows "Remove fuel cfg fs nm recur = Inr (False, fs)"
  using assms by (auto simp: Remove_def Let_def)

theorem C6_Remove_refuses_witness:
  "Remove 5 cfg0 fs_a ''//zz'' False = Inr (False, fs_a) \<and>
   Remove 5 cfg0 fs_loop ''//r'' True = Inr (False, fs_loop)"
proof -
  have a: "OPENDIR cfg0 (disk fs_a) (directoryFile fs_a) = Inr root_a"
    "ExtractBasePath (MAX_PATH_LEN cfg0 + 1) (FileNameMaxLen cfg0 + 1) ''//zz'' = Inr (''/'', ''/zz'')"
    "SearchPath cfg0 (disk fs_a) root_a ''/'' 0 = Inr 1" "(1::int) \<noteq> -1"
    "OpenFile_new cfg0 (disk fs_a) 1 = Inr (directoryFile fs_a)"
    "Find cfg0 root_a ''/zz'' = -1 \<or> Find cfg0 root_a ''/zz'' = DirectorySector"
    by code_simp+
  have b: "OPENDIR cfg0 (disk fs_loop) (directoryFile fs_loop) = Inr root_loop"
    "ExtractBasePath (MAX_PATH_LEN cfg0 + 1) (FileNameMaxLen cfg0 + 1) ''//r'' = Inr (''/'', ''/r'')"
    "SearchPath cfg0 (disk fs_loop) root_loop ''/'' 0 = Inr 1"
    "OpenFile_new cfg0 (disk fs_loop) 1 = Inr (directoryFile fs_loop)"
    "Find cfg0 root_loop ''/r'' = -1 \<or> Find cfg0 root_loop ''/r'' = DirectorySector"
    by code_simp+
  show ?thesis
    using C6_Remove_refuses[OF a(1,2,3,4,5) a(1) a(6), of 5 False]
          C6_Remove_refuses[OF b(1,2,3) a(4) b(4) b(1) b(5), of 5 True]
    by simp
qed

section \<open>Names with the leading separator\<close>

text \<open>
  C10.  With \<open>FileNameMaxLen\<close> positive: the leaf that \<^verbatim>\<open>ExtractBasePath\<close> returns begins with
  \<^verbatim>\<open>'/'\<close> and follows the base in the path; the entry \<^verbatim>\<open>Add\<close> stores carries the first
  \<open>FileNameMaxLen\<close> characters of the leaf; \<^verbatim>\<open>Create\<close> keeps every directory table on the disk
  with names in use that all begin with \<^verbatim>\<open>'/'\<close>; \<^verbatim>\<open>SearchPath\<close>, at a \<^verbatim>\<open>'/'\<close> of the path, looks up with
  \<^verbatim>\<open>Find\<close> the component with that \<^verbatim>\<open>'/'\<close> in front and goes on at the next \<^verbatim>\<open>'/'\<close>; and \<^verbatim>\<open>Find\<close> with
  a name that does not begin with \<^verbatim>\<open>'/'\<close> finds nothing in such a table.
\<close>

theorem C10_leading_slash:
  assumes n: "0 < FileNameMaxLen cfg"
  shows "(\<forall>bc nc path base leaf. ExtractBasePath bc nc path = Inr (base, leaf)
            \<longrightarrow> leaf \<noteq> [] \<and> hd leaf = CHR ''/'' \<and> base @ leaf = path) \<and>
         (\<forall>table leaf s dir table'. Add cfg table leaf s dir = (True, table')
            \<longrightarrow> (\<exists>i < length table. \<not> inUse (table ! i) \<and>
                   table' = table[i := \<lparr>inUse = True, sector = s,
                                        name = take (FileNameMaxLen cfg) leaf, isDir = dir\<rparr>])) \<and>
         (\<forall>fs nm initialSize dir r fs'.
            slash_disk (disk fs) \<and> Create cfg fs nm initialSize dir = Inr (r, fs')
            \<longrightarrow> slash_disk (disk fs')) \<and>
         (\<forall>d table nm offset. 2 \<le> length nm \<and> offset < length nm \<and> nm ! offset = CHR ''/''
            \<longrightarrow> (case next_slash nm offset of
                   None \<Rightarrow>
                     SearchPath cfg d table nm offset =
                       (if FileNameMaxLen cfg < length nm - offset then Inl BufferOverflow
                        else Inr (Find cfg table (CHR ''/'' # drop (Suc offset) nm)))
                 | Some i \<Rightarrow>
                     i + offset < length nm \<and> nm ! (i + offset) = CHR ''/'' \<and>
                     SearchPath cfg d table nm offset =
                       (if FileNameMaxLen cfg < i then Inl BufferOverflow
                        else
                          let s = Find cfg table (CHR ''/'' # take (i - 1) (drop (Suc offset) nm))
                          in if s = -1 then Inr s
                             else
                               (case OpenFile_new cfg d s of
                                  Inl e \<Rightarrow> Inl e
                                | Inr dir \<Rightarrow>
                                    (case Directory_FetchFrom cfg d dir
                                            (Directory_new (nat (DirectoryFileSize cfg))) of
                                       Inl e \<Rightarrow> Inl e
                                     | Inr directory \<Rightarrow>
                                         SearchPath cfg d directory nm (i + offset)))))) \<and>
         (\<forall>table bare. slash_names table \<and> (bare = [] \<or> hd bare \<noteq> CHR ''/'')
            \<longrightarrow> Find cfg table bare = -1)"
proof (intro conjI allI impI)
  fix bc nc path base leaf
  assume "ExtractBasePath bc nc path = Inr (base, leaf)"
  from ExtractBasePath_leaf[OF this] show "leaf \<noteq> []" "hd leaf = CHR ''/''" "base @ leaf = path"
    by simp_all
next
  fix table leaf s dir table'
  assume "Add cfg table leaf s dir = (True, table')"
  from Add_entry[OF this]
  show "\<exists>i < length table. \<not> inUse (table ! i) \<and>
          table' = table[i := \<lparr>inUse = True, sector = s,
                               name = take (FileNameMaxLen cfg) leaf, isDir = dir\<rparr>]" .
next
  fix fs nm initialSize dir r fs'
  assume "slash_disk (disk fs) \<and> Create cfg fs nm initialSize dir = Inr (r, fs')"
  then show "slash_disk (disk fs')" using Create_slash[OF n] by blast
next
  fix d table nm offset
  assume "2 \<le> length nm \<and> offset < length nm \<and> nm ! offset = CHR ''/''"
  then show "case next_slash nm offset of
                   None \<Rightarrow>
                     SearchPath cfg d table nm offset =
                       (if FileNameMaxLen cfg < length nm - offset then Inl BufferOverflow
                        else Inr (Find cfg table (CHR ''/'' # drop (Suc offset) nm)))
                 | Some i \<Rightarrow>
                     i + offset < length nm \<and> nm ! (i + offset) = CHR ''/'' \<and>
                     SearchPath cfg d table nm offset =
                       (if FileNameMaxLen cfg < i then Inl BufferOverflow
                        else
                          let s = Find cfg table (CHR ''/'' # take (i - 1) (drop (Suc offset) nm))
                          in if s = -1 then Inr s
                             else
                               (case OpenFile_new cfg d s of
                                  Inl e \<Rightarrow> Inl e
                                | Inr dir \<Rightarrow>
                                    (case Directory_FetchFrom cfg d dir
                                            (Directory_new (nat (DirectoryFileSize cfg))) of
                                       Inl e \<Rightarrow> Inl e
                                     | Inr directory \<Rightarrow>
                                         SearchPath cfg d directory nm (i + offset))))"
    using SearchPath_component[of nm offset cfg d table] by blast
next
  fix table bare
  assume "slash_names table \<and> (bare = [] \<or> hd bare \<noteq> CHR ''/'')"
  then show "Find cfg table bare = -1" using Find_bare[OF _ n] by blast
qed

theorem C10_leading_slash_witness:
  "ExtractBasePath 256 10 ''/d/x'' = Inr (''/d'', ''/x'') \<and> hd ''/x'' = CHR ''/'' \<and>
   slash_disk (disk fs_a) \<and>
   SearchPath cfg0 (disk fs_a) root_a ''/a'' 0 = Inr (Find cfg0 root_a ''/a'') \<and>
   Find cfg0 root_a ''/a'' = 4 \<and> Find cfg0 root_a ''a'' = - 1"
proof -
  have n: "0 < FileNameMaxLen cfg0" by code_simp
  note T = C10_leading_slash[OF n]
  note T1 = T[THEN conjunct1, rule_format]
  note T3 = T[THEN conjunct2, THEN conjunct2, THEN conjunct1, rule_format]
  note T4 = T[THEN conjunct2, THEN conjunct2, THEN conjunct2, THEN conjunct1, rule_format]
  note T5 = T[THEN conjunct2, THEN conjunct2, THEN conjunct2, THEN conjunct2, rule_format]
  have e: "ExtractBasePath 256 10 ''/d/x'' = Inr (''/d'', ''/x'')" by code_simp
  have h: "hd ''/x'' = CHR ''/''" using T1[OF e] by simp
  have s0: "slash_disk (disk fs0)" using Format_slash[OF slash_empty_disk Format_fs0] .
  have sa: "slash_disk (disk fs_a)" using T3[OF conjI[OF s0 Create_fs_a]] .
  have p: "2 \<le> length ''/a'' \<and> 0 < length ''/a'' \<and> ''/a'' ! 0 = CHR ''/''" by simp
  have ns: "next_slash ''/a'' 0 = None" by code_simp
  have fl: "\<not> FileNameMaxLen cfg0 < length ''/a'' - 0" by code_simp
  have sp: "SearchPath cfg0 (disk fs_a) root_a ''/a'' 0 = Inr (Find cfg0 root_a ''/a'')"
    using T4[OF p, of "disk fs_a" root_a] ns fl by simp
  have f4: "Find cfg0 root_a ''/a'' = 4" by code_simp
  have sl: "slash_names root_a" by code_simp
  have b: "slash_names root_a \<and> ((''a'' :: string) = [] \<or> hd ''a'' \<noteq> CHR ''/'')"
    using sl by simp
  have fb: "Find cfg0 root_a ''a'' = - 1" using T5[OF b] .
  show ?thesis using e h sa sp f4 fb by simp
qed


section \<open>The free map and the reachable files\<close>

text \<open>
  C2, as amended.  In every persisted state reached from a freshly formatted volume by
  calls of \<^verbatim>\<open>Create\<close> that return 1 and whose base path resolves to the header sector of a
  directory (the root, or one that a reachable entry flagged \<^verbatim>\<open>isDir\<close> names), the set of bits
  marked in the persisted free map equals sectors 0 and 1, together with the data and
  indirect-header sectors of the free-map file and of the root-directory file, together
  with the header, indirect-header and data sectors of every file reachable from the root
  directory.  The build is one where the free-map file and a directory file have a positive
  size.
\<close>

theorem C2_bitmap_consistency:
  assumes "wf_config cfg" and "0 < FreeMapFileSize cfg" and "0 < DirectoryFileSize cfg"
    and "reachable_state cfg fs"
  shows "map_sum id marked (PersistentBitmap_fetch cfg (disk fs) (freeMapFile fs)) =
           Inr ({FreeMapSector, DirectorySector} \<union> hdr_sectors (freeMapFile fs) \<union>
                hdr_sectors (directoryFile fs) \<union> reachable_sectors cfg (disk fs))"
proof -
  from reachable_state_Inv[OF assms] obtain bm bmS where "Inv cfg fs bm bmS" by blast
  then have "PersistentBitmap_fetch cfg (disk fs) (freeMapFile fs) = Inr bm"
    and "marked bm = {FreeMapSector, DirectorySector} \<union> hdr_sectors (freeMapFile fs) \<union>
                hdr_sectors (directoryFile fs) \<union> reachable_sectors cfg (disk fs)"
    by (simp_all add: Inv_def PersistentBitmap_fetch_def)
  then show ?thesis by simp
qed

text \<open>
  The theorem on the volume of \<open>cfg0\<close> after \<^verbatim>\<open>Create("//d", 0, true)\<close> and
  \<^verbatim>\<open>Create("/d/x", 10, false)\<close>: the second call resolves its base path to sector 4, the header
  of the directory \<^verbatim>\<open>d\<close>.
\<close>

theorem C2_bitmap_consistency_witness:
  "reachable_state cfg0 fs_dx \<and>
   map_sum id marked (PersistentBitmap_fetch cfg0 (disk fs_dx) (freeMapFile fs_dx)) =
     Inr ({FreeMapSector, DirectorySector} \<union> hdr_sectors (freeMapFile fs_dx) \<union>
          hdr_sectors (directoryFile fs_dx) \<union> reachable_sectors cfg0 (disk fs_dx))"
proof -
  have "0 < FreeMapFileSize cfg0" "0 < DirectoryFileSize cfg0" by (simp_all add: cfg0_def)
  from C2_bitmap_consistency[OF wf_cfg0 this reachable_fs_dx] reachable_fs_dx show ?thesis by simp
qed

text \<open>
  C2 as stated fails, in three ways.

  \<^verbatim>\<open>Remove("//d", false)\<close> on the directory \<^verbatim>\<open>d\<close> that holds the file \<^verbatim>\<open>x\<close> returns TRUE: it releases
  the header and the table of \<^verbatim>\<open>d\<close> (sectors 4 and 5) and takes \<^verbatim>\<open>d\<close> out of the root, without a
  look at the entries of \<^verbatim>\<open>d\<close>.  Sectors 6 and 7, the header and the data of \<^verbatim>\<open>x\<close>, stay marked,
  and no file is reachable any more.

  On the freshly formatted volume sectors 2 and 3 are marked: \<^verbatim>\<open>Allocate\<close> took them for the
  data of the free-map file and of the root directory, which are not files reachable from
  the root.

  \<^verbatim>\<open>SearchPath\<close> does not look at \<^verbatim>\<open>isDir\<close>.  With an empty plain file \<^verbatim>\<open>//e\<close> (header in sector 4),
  \<^verbatim>\<open>Create("/e/x", 10, false)\<close> resolves the base path to sector 4, which is not the header of
  a directory, reads no entry from the empty file, takes sectors 5 and 6, writes the free
  map and returns 1; the table with the entry of \<^verbatim>\<open>x\<close> has no data block to go to, so \<^verbatim>\<open>x\<close> is
  not reachable and sectors 5 and 6 stay marked.
\<close>

theorem C2_counterexample:
  "result_of (Create cfg0 fs0 ''//d'' 0 True) = Inr 1 \<and>
   result_of (Create cfg0 fs_d ''/d/x'' 10 False) = Inr 1 \<and>
   result_of (Remove 0 cfg0 fs_dx ''//d'' False) = Inr True \<and>
   map_sum id marked (PersistentBitmap_fetch cfg0 (disk fs_rm) (freeMapFile fs_rm)) =
     Inr {0, 1, 2, 3, 6, 7} \<and>
   hdr_sectors (freeMapFile fs_rm) = {2} \<and> hdr_sectors (directoryFile fs_rm) = {3} \<and>
   reachable_sectors cfg0 (disk fs_rm) = {} \<and> \<not> bitmap_claim cfg0 fs_rm \<and>
   map_sum id marked (PersistentBitmap_fetch cfg0 (disk fs0) (freeMapFile fs0)) = Inr {0, 1, 2, 3} \<and>
   reachable_sectors cfg0 (disk fs0) = {} \<and> \<not> bitmap_claim cfg0 fs0 \<and>
   result_of (Create cfg0 fs0 ''//e'' 0 False) = Inr 1 \<and>
   Create_base cfg0 fs_e ''/e/x'' = Inr 4 \<and> \<not> is_directory cfg0 (disk fs_e) 4 \<and>
   result_of (Create cfg0 fs_e ''/e/x'' 10 False) = Inr 1 \<and>
   map_sum id marked (PersistentBitmap_fetch cfg0 (disk fs_ex) (freeMapFile fs_ex)) =
     Inr {0, 1, 2, 3, 4, 5, 6} \<and>
   hdr_sectors (freeMapFile fs_ex) = {2} \<and> hdr_sectors (directoryFile fs_ex) = {3} \<and>
   reachable_sectors cfg0 (disk fs_ex) = {4} \<and> \<not> bitmap_claim cfg0 fs_ex"
proof -
  have c1: "result_of (Create cfg0 fs0 ''//d'' 0 True) = Inr 1" by code_simp
  have c2: "result_of (Create cfg0 fs_d ''/d/x'' 10 False) = Inr 1" by code_simp
  have c3: "result_of (Remove 0 cfg0 fs_dx ''//d'' False) = Inr True" by code_simp
  have m1: "map_sum id marked (PersistentBitmap_fetch cfg0 (disk fs_rm) (freeMapFile fs_rm)) =
     Inr {0, 1, 2, 3, 6, 7}" by code_simp
  have g1: "hdr_sectors (freeMapFile fs_rm) = {2}" "hdr_sectors (directoryFile fs_rm) = {3}"
    by code_simp+
  have m0: "map_sum id marked (PersistentBitmap_fetch cfg0 (disk fs0) (freeMapFile fs0)) = Inr {0, 1, 2, 3}"
    by code_simp
  have "entries_of cfg0 (disk fs_rm) DirectorySector = []" by code_simp
  then have r1: "reachable_sectors cfg0 (disk fs_rm) = {}" by (rule empty_root_sectors)
  have "entries_of cfg0 (disk fs0) DirectorySector = []" by code_simp
  then have r0: "reachable_sectors cfg0 (disk fs0) = {}" by (rule empty_root_sectors)
  have "(6::int) \<in> {0, 1, 2, 3, 6, 7}" "(6::int) \<notin> {0, 1}" by simp_all
  then have ne1: "{0, 1, 2, 3, 6, 7} \<noteq> {0, 1::int}" by blast
  have "(2::int) \<in> {0, 1, 2, 3}" "(2::int) \<notin> {0, 1}" by simp_all
  then have ne0: "{0, 1, 2, 3} \<noteq> {0, 1::int}" by blast
  have n1: "\<not> bitmap_claim cfg0 fs_rm"
    unfolding bitmap_claim_def m1 r1 using ne1 by (simp add: FreeMapSector_def DirectorySector_def)
  have n0: "\<not> bitmap_claim cfg0 fs0"
    unfolding bitmap_claim_def m0 r0 using ne0 by (simp add: FreeMapSector_def DirectorySector_def)
  have e1: "result_of (Create cfg0 fs0 ''//e'' 0 False) = Inr 1" by code_simp
  have b: "Create_base cfg0 fs_e ''/e/x'' = Inr 4" by code_simp
  have e2: "result_of (Create cfg0 fs_e ''/e/x'' 10 False) = Inr 1" by code_simp
  have m2: "map_sum id marked (PersistentBitmap_fetch cfg0 (disk fs_ex) (freeMapFile fs_ex)) =
     Inr {0, 1, 2, 3, 4, 5, 6}" by code_simp
  have g2: "hdr_sectors (freeMapFile fs_ex) = {2}" "hdr_sectors (directoryFile fs_ex) = {3}"
    by code_simp+
  have t0: "entries_of cfg0 (disk fs_e) DirectorySector =
             [\<lparr>inUse = True, sector = 4, name = ''/e'', isDir = False\<rparr>]" by code_simp
  have "reachable cfg0 (disk fs_e) p \<longleftrightarrow> p = \<lparr>inUse = True, sector = 4, name = ''/e'', isDir = False\<rparr>" for p
    using plain_root_reachable[of cfg0 "disk fs_e" p] by (simp add: t0)
  then have nd: "\<not> is_directory cfg0 (disk fs_e) 4"
    by (simp add: is_directory_def DirectorySector_def)
  have t1: "entries_of cfg0 (disk fs_ex) DirectorySector =
             [\<lparr>inUse = True, sector = 4, name = ''/e'', isDir = False\<rparr>]" by code_simp
  have r: "{p. reachable cfg0 (disk fs_ex) p} = {\<lparr>inUse = True, sector = 4, name = ''/e'', isDir = False\<rparr>}"
    using plain_root_reachable[of cfg0 "disk fs_ex"] by (auto simp: t1)
  have f: "file_sectors cfg0 (disk fs_ex) \<lparr>inUse = True, sector = 4, name = ''/e'', isDir = False\<rparr> = {4}"
    by code_simp
  have r2: "reachable_sectors cfg0 (disk fs_ex) = {4}"
    unfolding reachable_sectors_def r using f by simp
  have "(5::int) \<in> {0, 1, 2, 3, 4, 5, 6}" "(5::int) \<notin> {4, 0, 1}" by simp_all
  then have ne2: "{0, 1, 2, 3, 4, 5, 6} \<noteq> {4, 0, 1::int}" by blast
  have n2: "\<not> bitmap_claim cfg0 fs_ex"
    unfolding bitmap_claim_def m2 r2 using ne2 by (simp add: FreeMapSector_def DirectorySector_def)
  show ?thesis
    using c1 c2 c3 m1 g1 r1 n1 m0 r0 n0 e1 b nd e2 m2 g2 r2 n2 by simp
qed

end
